theory Spec2Isabelle
  imports Main
begin

section \<open>The middleware enhancer of \<^verbatim>\<open>src/lib/redux/applyMiddleware.ts\<close>\<close>

text \<open>
  \<^verbatim>\<open>applyMiddleware(...middlewares)(createStore)(reducer, ...args)\<close> builds the base
  store, instantiates every middleware against one \<^verbatim>\<open>middlewareAPI\<close> object, composes the
  resulting chain around \<^verbatim>\<open>store.dispatch\<close>, stores the composed function in the local
  variable \<^verbatim>\<open>dispatch\<close> and returns \<^verbatim>\<open>{...store, dispatch}\<close>.

  The enhancer is higher order: middlewares, the store creator and the reducer are inputs.
  A middleware \<^verbatim>\<open>api => next => action => { ... }\<close> is represented by the tree of the
  effects its body performs, with ordinary HOL functions between two effects. The effects
  are the ones a middleware has the capability for: reading \<^verbatim>\<open>api.getState()\<close>, calling
  \<^verbatim>\<open>api.dispatch(action)\<close>, calling \<^verbatim>\<open>next(action)\<close> (in a handler only, where
  \<^verbatim>\<open>next\<close> is in scope), reading and writing state of its own outside the store (a log,
  a counter), \<^verbatim>\<open>throw\<close>, and \<^verbatim>\<open>try/catch\<close>. The \<^verbatim>\<open>next => ...\<close> layer is taken to do
  nothing but close over \<^verbatim>\<open>next\<close> (the shape the source's comment gives,
  \<^verbatim>\<open>store => next => action => {}\<close>). The extra positional arguments of a dispatch call
  are forwarded verbatim everywhere, so an action stands for the whole argument list.
  A body is a well-founded tree: it does not loop by itself. A call that does not return
  comes from a handler that dispatches through the API without end.
\<close>

subsection \<open>Errors\<close>

datatype error = Error string

text \<open>The \<^verbatim>\<open>Error\<close> thrown by the initial \<^verbatim>\<open>dispatch\<close> (lines 63--68).\<close>

definition guard_error :: error where
  "guard_error = Error (''Dispatching while constructing your middleware is not allowed. '' @
                        ''Other middleware would not be applied to this dispatch.'')"

subsection \<open>Middleware bodies\<close>

text \<open>
  The body of a handler \<^verbatim>\<open>action => { ... }\<close>. \<open>HTry b h k\<close> is
  \<^verbatim>\<open>try { x = b } catch (e) { return h(e) } return k(x)\<close>.
\<close>

datatype ('a, 'r, 'v, 'm) handler_code =
    HReturn 'r
  | HThrow error
  | HGetState "'v \<Rightarrow> ('a, 'r, 'v, 'm) handler_code"
  | HModify "'m \<Rightarrow> 'm" "('a, 'r, 'v, 'm) handler_code"
  | HInspect "'m \<Rightarrow> ('a, 'r, 'v, 'm) handler_code"
  | HDispatch 'a "'r \<Rightarrow> ('a, 'r, 'v, 'm) handler_code"
  | HNext 'a "'r \<Rightarrow> ('a, 'r, 'v, 'm) handler_code"
  | HTry "('a, 'r, 'v, 'm) handler_code" "error \<Rightarrow> ('a, 'r, 'v, 'm) handler_code"
         "'r \<Rightarrow> ('a, 'r, 'v, 'm) handler_code"

type_synonym ('a, 'r, 'v, 'm) handler = "'a \<Rightarrow> ('a, 'r, 'v, 'm) handler_code"

text \<open>
  The body of a middleware constructor \<^verbatim>\<open>api => { ...; return handler }\<close>: the same
  effects without \<^verbatim>\<open>next\<close>, which is not in scope there.
\<close>

datatype ('a, 'r, 'v, 'm) ctor_code =
    CReturn "('a, 'r, 'v, 'm) handler"
  | CThrow error
  | CGetState "'v \<Rightarrow> ('a, 'r, 'v, 'm) ctor_code"
  | CModify "'m \<Rightarrow> 'm" "('a, 'r, 'v, 'm) ctor_code"
  | CInspect "'m \<Rightarrow> ('a, 'r, 'v, 'm) ctor_code"
  | CDispatch 'a "'r \<Rightarrow> ('a, 'r, 'v, 'm) ctor_code"
  | CTry "('a, 'r, 'v, 'm) ctor_code" "error \<Rightarrow> ('a, 'r, 'v, 'm) ctor_code"
         "('a, 'r, 'v, 'm) handler \<Rightarrow> ('a, 'r, 'v, 'm) ctor_code"

subsection \<open>Function values and the mutable state\<close>

text \<open>
  The dispatch function of the unwrapped store: it acts on the store's internal state
  and returns a value or throws.
\<close>

type_synonym ('a, 'r, 'st) native = "'a \<Rightarrow> 'st \<Rightarrow> (error + 'r) \<times> 'st"

text \<open>
  The values of type \<^verbatim>\<open>Dispatch\<close> that occur: the throwing function of lines 63--68,
  the dispatch of a base store, and the closure \<^verbatim>\<open>compose(...chain)(store.dispatch)\<close>
  of line 87, which captures \<^verbatim>\<open>store.getState\<close> (through \<^verbatim>\<open>middlewareAPI\<close>), the chain
  and the function it wraps.
\<close>

datatype ('a, 'r, 'st, 'v, 'm) fn =
    Guard
  | Native "('a, 'r, 'st) native"
  | Composed "'st \<Rightarrow> 'v" "('a, 'r, 'v, 'm) handler list" "('a, 'r, 'st, 'v, 'm) fn"

text \<open>
  The state a dispatch call can touch: the store's internal state, the state the
  middlewares keep outside the store, and \<open>cell\<close>, the variable \<^verbatim>\<open>let dispatch\<close> of
  line 63.
\<close>

record ('a, 'r, 'st, 'v, 'm) world =
  store_st :: 'st
  mw_st :: 'm
  cell :: "('a, 'r, 'st, 'v, 'm) fn"

text \<open>A call returns a value or throws; \<open>None\<close> is a call that does not return.\<close>

type_synonym ('a, 'r, 'st, 'v, 'm) Dispatch =
  "'a \<Rightarrow> ('a, 'r, 'st, 'v, 'm) world \<Rightarrow> ((error + 'r) \<times> ('a, 'r, 'st, 'v, 'm) world) option"

record ('a, 'r, 'st, 'v, 'm) middlewareAPI =
  api_getState :: "('a, 'r, 'st, 'v, 'm) world \<Rightarrow> 'v"
  api_dispatch :: "('a, 'r, 'st, 'v, 'm) Dispatch"

subsection \<open>Running a middleware body\<close>

primrec exec_handler ::
  "('a, 'r, 'st, 'v, 'm) middlewareAPI \<Rightarrow> ('a, 'r, 'st, 'v, 'm) Dispatch \<Rightarrow>
   ('a, 'r, 'v, 'm) handler_code \<Rightarrow> ('a, 'r, 'st, 'v, 'm) world \<Rightarrow>
   ((error + 'r) \<times> ('a, 'r, 'st, 'v, 'm) world) option" where
  "exec_handler api nxt (HReturn r) w = Some (Inr r, w)"
| "exec_handler api nxt (HThrow e) w = Some (Inl e, w)"
| "exec_handler api nxt (HGetState k) w = exec_handler api nxt (k (api_getState api w)) w"
| "exec_handler api nxt (HModify f c) w = exec_handler api nxt c (w\<lparr>mw_st := f (mw_st w)\<rparr>)"
| "exec_handler api nxt (HInspect k) w = exec_handler api nxt (k (mw_st w)) w"
| "exec_handler api nxt (HDispatch a k) w =
     (case api_dispatch api a w of
        None \<Rightarrow> None
      | Some (Inl e, w') \<Rightarrow> Some (Inl e, w')
      | Some (Inr r, w') \<Rightarrow> exec_handler api nxt (k r) w')"
| "exec_handler api nxt (HNext a k) w =
     (case nxt a w of
        None \<Rightarrow> None
      | Some (Inl e, w') \<Rightarrow> Some (Inl e, w')
      | Some (Inr r, w') \<Rightarrow> exec_handler api nxt (k r) w')"
| "exec_handler api nxt (HTry b h k) w =
     (case exec_handler api nxt b w of
        None \<Rightarrow> None
      | Some (Inl e, w') \<Rightarrow> exec_handler api nxt (h e) w'
      | Some (Inr r, w') \<Rightarrow> exec_handler api nxt (k r) w')"

primrec exec_ctor ::
  "('a, 'r, 'st, 'v, 'm) middlewareAPI \<Rightarrow> ('a, 'r, 'v, 'm) ctor_code \<Rightarrow>
   ('a, 'r, 'st, 'v, 'm) world \<Rightarrow>
   ((error + ('a, 'r, 'v, 'm) handler) \<times> ('a, 'r, 'st, 'v, 'm) world) option" where
  "exec_ctor api (CReturn h) w = Some (Inr h, w)"
| "exec_ctor api (CThrow e) w = Some (Inl e, w)"
| "exec_ctor api (CGetState k) w = exec_ctor api (k (api_getState api w)) w"
| "exec_ctor api (CModify f c) w = exec_ctor api c (w\<lparr>mw_st := f (mw_st w)\<rparr>)"
| "exec_ctor api (CInspect k) w = exec_ctor api (k (mw_st w)) w"
| "exec_ctor api (CDispatch a k) w =
     (case api_dispatch api a w of
        None \<Rightarrow> None
      | Some (Inl e, w') \<Rightarrow> Some (Inl e, w')
      | Some (Inr r, w') \<Rightarrow> exec_ctor api (k r) w')"
| "exec_ctor api (CTry b h k) w =
     (case exec_ctor api b w of
        None \<Rightarrow> None
      | Some (Inl e, w') \<Rightarrow> exec_ctor api (h e) w'
      | Some (Inr x, w') \<Rightarrow> exec_ctor api (k x) w')"

subsection \<open>The pipeline composer\<close>

text \<open>
  Modelled from the spec: \<^verbatim>\<open>./compose\<close> is imported by the source and is not part of
  it. The spec's arity rules: no function gives the identity, one function is returned
  unchanged, two or more are reduced from the left with \<^verbatim>\<open>(a, b) => x => a(b(x))\<close>.
\<close>

fun compose :: "('x \<Rightarrow> 'x) list \<Rightarrow> 'x \<Rightarrow> 'x" where
  "compose [] = (\<lambda>arg. arg)"
| "compose [f] = f"
| "compose (f # g # fs) = foldl (\<lambda>a b. (\<lambda>arg. a (b arg))) f (g # fs)"

subsection \<open>Calling a function value\<close>

text \<open>
  \<open>call n d action w\<close> applies the function value \<open>d\<close>. A handler that dispatches through
  the API from inside the chain re-enters the chain, possibly for ever; \<open>n\<close> bounds the
  depth of that nesting and \<open>None\<close> means the bound was reached. The record in the last
  equation is \<^verbatim>\<open>middlewareAPI\<close> (lines 70--73): \<^verbatim>\<open>getState\<close> is the store's, and
  \<^verbatim>\<open>dispatch\<close> calls whatever the variable \<^verbatim>\<open>dispatch\<close> holds at the time of the call.
\<close>

fun call :: "nat \<Rightarrow> ('a, 'r, 'st, 'v, 'm) fn \<Rightarrow> ('a, 'r, 'st, 'v, 'm) Dispatch" where
  "call n Guard a w = Some (Inl guard_error, w)"
| "call n (Native f) a w =
     Some (case f a (store_st w) of (res, s') \<Rightarrow> (res, w\<lparr>store_st := s'\<rparr>))"
| "call 0 (Composed gs chain b) a w = None"
| "call (Suc n) (Composed gs chain b) a w =
     compose
       (map (\<lambda>h nxt action.
               exec_handler
                 \<lparr>api_getState = (\<lambda>w. gs (store_st w)),
                  api_dispatch = (\<lambda>action w. call n (cell w) action w)\<rparr>
                 nxt (h action))
            chain)
       (call n b) a w"

definition middlewareAPI ::
  "nat \<Rightarrow> ('st \<Rightarrow> 'v) \<Rightarrow> ('a, 'r, 'st, 'v, 'm) middlewareAPI" where
  "middlewareAPI n gs =
     \<lparr>api_getState = (\<lambda>w. gs (store_st w)),
      api_dispatch = (\<lambda>action w. call n (cell w) action w)\<rparr>"

text \<open>
  An element of \<^verbatim>\<open>chain\<close>: the function \<^verbatim>\<open>next => action => ...\<close> that a middleware
  constructor returned, closed over the API object.
\<close>

definition transform ::
  "('a, 'r, 'st, 'v, 'm) middlewareAPI \<Rightarrow> ('a, 'r, 'v, 'm) handler \<Rightarrow>
   ('a, 'r, 'st, 'v, 'm) Dispatch \<Rightarrow> ('a, 'r, 'st, 'v, 'm) Dispatch" where
  "transform api h = (\<lambda>nxt action. exec_handler api nxt (h action))"

subsection \<open>Store objects\<close>

record ('g, 'd, 'o) store =
  getState :: 'g
  dispatch :: 'd
  others :: 'o

text \<open>
  Store objects live in a heap, addressed by position; \<open>alloc\<close> is the creation of a
  new object (\<^verbatim>\<open>createStore\<close>'s result, the object literal of lines 89--92).
\<close>

type_synonym ('a, 'r, 'st, 'v, 'm, 'o) heap =
  "('st \<Rightarrow> 'v, ('a, 'r, 'st, 'v, 'm) fn, 'o) store list"

definition alloc :: "'x list \<Rightarrow> 'x \<Rightarrow> nat \<times> 'x list" where
  "alloc h obj = (length h, h @ [obj])"

subsection \<open>The enhancer\<close>

text \<open>\<^verbatim>\<open>middlewares.map((middleware) => middleware(middlewareAPI))\<close>, line 76.\<close>

fun instantiate ::
  "('a, 'r, 'st, 'v, 'm) middlewareAPI \<Rightarrow> ('a, 'r, 'v, 'm) ctor_code list \<Rightarrow>
   ('a, 'r, 'st, 'v, 'm) world \<Rightarrow>
   ((error + ('a, 'r, 'v, 'm) handler list) \<times> ('a, 'r, 'st, 'v, 'm) world) option" where
  "instantiate api [] w = Some (Inr [], w)"
| "instantiate api (middleware # rest) w =
     (case exec_ctor api middleware w of
        None \<Rightarrow> None
      | Some (Inl e, w') \<Rightarrow> Some (Inl e, w')
      | Some (Inr h, w') \<Rightarrow>
          (case instantiate api rest w' of
             None \<Rightarrow> None
           | Some (Inl e, w'') \<Rightarrow> Some (Inl e, w'')
           | Some (Inr hs, w'') \<Rightarrow> Some (Inr (h # hs), w'')))"

text \<open>
  Lines 58--93. \<open>createStore reducer args\<close> throws or gives the fields of a new store
  object and the store's initial internal state. The caller's side of the state is the
  heap of objects and the middlewares' outside state. The result is the error thrown, or
  the address of the returned container; both come with the state left behind.
\<close>

definition applyMiddleware ::
  "nat \<Rightarrow> ('a, 'r, 'v, 'm) ctor_code list \<Rightarrow>
   ('red \<Rightarrow> 'args \<Rightarrow> error + ('st \<Rightarrow> 'v, ('a, 'r, 'st) native, 'o) store \<times> 'st) \<Rightarrow>
   'red \<Rightarrow> 'args \<Rightarrow> ('a, 'r, 'st, 'v, 'm, 'o) heap \<times> 'm \<Rightarrow>
   (error \<times> ('a, 'r, 'st, 'v, 'm, 'o) heap \<times> 'm +
    nat \<times> ('a, 'r, 'st, 'v, 'm, 'o) heap \<times> ('a, 'r, 'st, 'v, 'm) world) option" where
  "applyMiddleware n middlewares createStore reducer args hm =
     (case hm of (h, m) \<Rightarrow>
      (case createStore reducer args of
         Inl e \<Rightarrow> Some (Inl (e, h, m))
       | Inr (base, s0) \<Rightarrow>
           (case alloc h \<lparr>getState = getState base, dispatch = Native (dispatch base),
                          others = others base\<rparr> of
              (store, h1) \<Rightarrow>
                (let w0 = \<lparr>store_st = s0, mw_st = m, cell = Guard\<rparr>;
                     api = middlewareAPI n (getState (h1 ! store))
                 in case instantiate api middlewares w0 of
                      None \<Rightarrow> None
                    | Some (Inl e, w1) \<Rightarrow> Some (Inl (e, h1, mw_st w1))
                    | Some (Inr chain, w1) \<Rightarrow>
                        (let d = Composed (getState (h1 ! store)) chain (dispatch (h1 ! store));
                             w2 = w1\<lparr>cell := d\<rparr>
                         in case alloc h1 ((h1 ! store)\<lparr>dispatch := d\<rparr>) of
                              (c, h2) \<Rightarrow> Some (Inr (c, h2, w2)))))))"

subsection \<open>Observers\<close>

text \<open>The object that \<^verbatim>\<open>createStore\<close> returns, as it lies in the heap.\<close>

definition store_object ::
  "('st \<Rightarrow> 'v, ('a, 'r, 'st) native, 'o) store \<Rightarrow>
   ('st \<Rightarrow> 'v, ('a, 'r, 'st, 'v, 'm) fn, 'o) store" where
  "store_object base =
     \<lparr>getState = getState base, dispatch = Native (dispatch base), others = others base\<rparr>"

text \<open>A caller that dispatches a list of actions in turn and collects each outcome.\<close>

fun dispatch_seq ::
  "('a, 'r, 'st, 'v, 'm) Dispatch \<Rightarrow> 'a list \<Rightarrow> ('a, 'r, 'st, 'v, 'm) world \<Rightarrow>
   ((error + 'r) list \<times> ('a, 'r, 'st, 'v, 'm) world) option" where
  "dispatch_seq d [] w = Some ([], w)"
| "dispatch_seq d (a # as) w =
     (case d a w of
        None \<Rightarrow> None
      | Some (res, w') \<Rightarrow>
          (case dispatch_seq d as w' of
             None \<Rightarrow> None
           | Some (ress, w'') \<Rightarrow> Some (res # ress, w'')))"

text \<open>
  A \<^verbatim>\<open>next\<close> that never returns. A handler that returns when it is given this one
  has returned without calling \<^verbatim>\<open>next\<close>: in \<open>exec_handler\<close> a call that does not
  return ends the run, also inside \<^verbatim>\<open>try\<close>.
\<close>

definition never :: "('a, 'r, 'st, 'v, 'm) Dispatch" where
  "never = (\<lambda>action w. None)"

text \<open>
  The constructor body, run from \<open>w\<close>, reaches a call of \<^verbatim>\<open>api.dispatch\<close> that no
  \<^verbatim>\<open>try\<close> block of the body encloses. A call in the protected part of a \<^verbatim>\<open>try\<close> does
  not count; one in its \<^verbatim>\<open>catch\<close> clause or after the block does.
\<close>

primrec uncaught_dispatch ::
  "('a, 'r, 'st, 'v, 'm) middlewareAPI \<Rightarrow> ('a, 'r, 'v, 'm) ctor_code \<Rightarrow>
   ('a, 'r, 'st, 'v, 'm) world \<Rightarrow> bool" where
  "uncaught_dispatch api (CReturn h) w = False"
| "uncaught_dispatch api (CThrow e) w = False"
| "uncaught_dispatch api (CGetState k) w = uncaught_dispatch api (k (api_getState api w)) w"
| "uncaught_dispatch api (CModify f c) w = uncaught_dispatch api c (w\<lparr>mw_st := f (mw_st w)\<rparr>)"
| "uncaught_dispatch api (CInspect k) w = uncaught_dispatch api (k (mw_st w)) w"
| "uncaught_dispatch api (CDispatch a k) w = True"
| "uncaught_dispatch api (CTry b h k) w =
     (case exec_ctor api b w of
        None \<Rightarrow> False
      | Some (Inl e, w') \<Rightarrow> uncaught_dispatch api (h e) w'
      | Some (Inr x, w') \<Rightarrow> uncaught_dispatch api (k x) w')"

text \<open>
  Some constructor of the list reaches such a call, and every constructor before it
  has returned its handler.
\<close>

fun dispatch_while_constructing ::
  "('a, 'r, 'st, 'v, 'm) middlewareAPI \<Rightarrow> ('a, 'r, 'v, 'm) ctor_code list \<Rightarrow>
   ('a, 'r, 'st, 'v, 'm) world \<Rightarrow> bool" where
  "dispatch_while_constructing api [] w = False"
| "dispatch_while_constructing api (middleware # rest) w =
     (if uncaught_dispatch api middleware w then True
      else (case exec_ctor api middleware w of
              Some (Inr h, w') \<Rightarrow> dispatch_while_constructing api rest w'
            | _ \<Rightarrow> False))"

subsection \<open>Example inputs\<close>

text \<open>
  A store over an integer: \<^verbatim>\<open>getState\<close> reads it, dispatch applies the reducer and
  returns the action.
\<close>

definition int_base ::
  "(int \<Rightarrow> int \<Rightarrow> int) \<Rightarrow> (int \<Rightarrow> int, (int, int, int) native, unit) store" where
  "int_base reducer =
     \<lparr>getState = (\<lambda>s. s), dispatch = (\<lambda>a s. (Inr a, reducer s a)), others = ()\<rparr>"

definition int_store ::
  "(int \<Rightarrow> int \<Rightarrow> int) \<Rightarrow> int \<Rightarrow>
   error + (int \<Rightarrow> int, (int, int, int) native, unit) store \<times> int" where
  "int_store reducer init = Inr (int_base reducer, init)"

text \<open>The composed dispatch of a chain around the adding store.\<close>

definition wrapped ::
  "(int, int, int, string list) handler list \<Rightarrow> (int, int, int, int, string list) fn" where
  "wrapped chain = Composed (getState (int_base (+))) chain (Native (dispatch (int_base (+))))"

text \<open>The state when the first constructor starts: the store holds 5, the log is empty.\<close>

definition fresh_world :: "(int, int, int, int, string list) world" where
  "fresh_world = \<lparr>store_st = 5, mw_st = [], cell = Guard\<rparr>"

text \<open>\<^verbatim>\<open>action => next(action)\<close>, and the middleware that is nothing else.\<close>

definition forward :: "('a, 'r, 'v, 'm) handler" where
  "forward = (\<lambda>action. HNext action HReturn)"

definition pass_through :: "('a, 'r, 'v, 'm) ctor_code" where
  "pass_through = CReturn forward"

text \<open>A constructor that writes its label to the log when it is instantiated.\<close>

definition announcing :: "string \<Rightarrow> (int, int, int, string list) ctor_code" where
  "announcing l = CModify (\<lambda>m. m @ [l]) (CReturn forward)"

text \<open>
  A constructor that dispatches while it is being constructed, and one that does the
  same inside \<^verbatim>\<open>try { ... } catch (e) { }\<close>.
\<close>

definition eager :: "(int, int, int, string list) ctor_code" where
  "eager = CDispatch 1 (\<lambda>r. CReturn forward)"

definition swallow :: "error \<Rightarrow> (int, int, int, string list) ctor_code" where
  "swallow e = CReturn forward"

definition cautious :: "(int, int, int, string list) ctor_code" where
  "cautious = CTry eager swallow CReturn"

text \<open>A constructor that writes to the log and then dispatches.\<close>

definition tardy :: "(int, int, int, string list) ctor_code" where
  "tardy = CModify (\<lambda>m. m @ [''B'']) eager"

text \<open>
  The handler of the spec's ordering test: it logs before and after calling
  \<^verbatim>\<open>next\<close> and returns what \<^verbatim>\<open>next\<close> returned.
\<close>

definition logging :: "string \<Rightarrow> ('a, 'r, 'v, string list) handler" where
  "logging l =
     (\<lambda>action. HModify (\<lambda>m. m @ [l @ ''-before''])
                 (HNext action (\<lambda>r. HModify (\<lambda>m. m @ [l @ ''-after'']) (HReturn r))))"

definition logger :: "string \<Rightarrow> ('a, 'r, 'v, string list) ctor_code" where
  "logger l = CReturn (logging l)"

text \<open>A handler that logs and returns 0 without calling \<^verbatim>\<open>next\<close>.\<close>

definition stop :: "(int, int, int, string list) handler" where
  "stop = (\<lambda>action. HModify (\<lambda>m. m @ [''stop'']) (HReturn 0))"

text \<open>
  A handler that, for the action 0, first dispatches the action 1 through the API and
  then hands 0 to \<^verbatim>\<open>next\<close>.
\<close>

definition redispatch :: "(int, int, int, string list) handler" where
  "redispatch =
     (\<lambda>action. if action = 0 then HDispatch 1 (\<lambda>r. HNext action HReturn)
                else HNext action HReturn)"

section \<open>Properties\<close>

subsection \<open>The composer and the chain\<close>

lemma foldl_compose_apply:
  "foldl (\<lambda>a b. (\<lambda>arg. a (b arg))) f gs x = f (foldr (\<lambda>g acc. g acc) gs x)"
  by (induction gs arbitrary: f) simp_all

lemma compose_foldr: "compose fs x = foldr (\<lambda>f acc. f acc) fs x"
  by (cases fs rule: compose.cases) (simp_all add: foldl_compose_apply)

lemma compose_Nil: "compose [] x = x"
  by simp

lemma compose_Cons: "compose (f # fs) x = f (compose fs x)"
  by (simp only: compose_foldr foldr.simps o_apply)

lemma compose_append: "compose (fs @ gs) x = compose fs (compose gs x)"
  by (simp add: compose_foldr)

lemma transform_apply: "transform api h nxt a w = exec_handler api nxt (h a) w"
  by (simp add: transform_def)

lemma chain_Cons:
  "compose (map (transform api) (h # hs)) base a w =
     exec_handler api (compose (map (transform api) hs) base) (h a) w"
  unfolding list.map compose_Cons by (rule transform_apply)

lemma call_Composed:
  "call (Suc n) (Composed gs chain b) =
     compose (map (transform (middlewareAPI n gs)) chain) (call n b)"
  by (rule ext, rule ext) (simp add: transform_def[abs_def] middlewareAPI_def)

lemma api_dispatch_middlewareAPI [simp]:
  "api_dispatch (middlewareAPI n gs) a w = call n (cell w) a w"
  by (simp add: middlewareAPI_def)

lemma api_getState_middlewareAPI [simp]:
  "api_getState (middlewareAPI n gs) w = gs (store_st w)"
  by (simp add: middlewareAPI_def)

subsection \<open>Construction\<close>

text \<open>
  While the variable \<^verbatim>\<open>dispatch\<close> holds the throwing function, a constructor always
  returns or throws, and it changes neither that variable nor the store's state.
\<close>

lemma exec_ctor_guard:
  "cell w = Guard \<Longrightarrow>
   \<exists>res w'. exec_ctor (middlewareAPI n gs) c w = Some (res, w') \<and>
            cell w' = Guard \<and> store_st w' = store_st w"
proof (induction c arbitrary: w)
  case (CTry b h k)
  from CTry.IH(1) [OF CTry.prems] obtain res w' where
    b: "exec_ctor (middlewareAPI n gs) b w = Some (res, w')" "cell w' = Guard"
       "store_st w' = store_st w"
    by blast
  show ?case
  proof (cases res)
    case (Inl e)
    from CTry.IH(2) [OF rangeI b(2), of e] b Inl show ?thesis by auto
  next
    case (Inr x)
    from CTry.IH(3) [OF rangeI b(2), of x] b Inr show ?thesis by auto
  qed
next
  case (CModify f c)
  from CModify.IH [of "w\<lparr>mw_st := f (mw_st w)\<rparr>"] CModify.prems show ?case by simp
qed (auto simp: rangeI)

lemma instantiate_guard:
  "cell w = Guard \<Longrightarrow>
   \<exists>res w'. instantiate (middlewareAPI n gs) cs w = Some (res, w') \<and>
            cell w' = Guard \<and> store_st w' = store_st w"
proof (induction cs arbitrary: w)
  case Nil
  then show ?case by simp
next
  case (Cons c cs)
  from exec_ctor_guard [OF Cons.prems, of n gs c] obtain res w' where
    c: "exec_ctor (middlewareAPI n gs) c w = Some (res, w')" "cell w' = Guard"
       "store_st w' = store_st w"
    by blast
  show ?case
  proof (cases res)
    case (Inl e)
    with c show ?thesis by simp
  next
    case (Inr x)
    from Cons.IH [OF c(2)] obtain res' w'' where
      "instantiate (middlewareAPI n gs) cs w' = Some (res', w'')" "cell w'' = Guard"
       "store_st w'' = store_st w'"
      by blast
    with c Inr show ?thesis by (cases res') simp_all
  qed
qed

lemma instantiate_append:
  "instantiate api (xs @ ys) w =
     (case instantiate api xs w of
        None \<Rightarrow> None
      | Some (Inl e, w') \<Rightarrow> Some (Inl e, w')
      | Some (Inr hs, w') \<Rightarrow>
          (case instantiate api ys w' of
             None \<Rightarrow> None
           | Some (Inl e, w'') \<Rightarrow> Some (Inl e, w'')
           | Some (Inr hs', w'') \<Rightarrow> Some (Inr (hs @ hs'), w'')))"
  by (induction xs arbitrary: w) (auto split: option.splits sum.splits prod.splits)

lemma instantiate_trace:
  "instantiate api cs w = Some (Inr hs, w') \<Longrightarrow>
   \<exists>ws. length ws = Suc (length cs) \<and> ws ! 0 = w \<and> ws ! length cs = w' \<and>
        length hs = length cs \<and>
        (\<forall>i<length cs. exec_ctor api (cs ! i) (ws ! i) = Some (Inr (hs ! i), ws ! Suc i))"
proof (induction cs arbitrary: w hs)
  case Nil
  then show ?case by (auto intro: exI [of _ "[w]"])
next
  case (Cons c cs)
  from Cons.prems obtain x w1 xs where
    c: "exec_ctor api c w = Some (Inr x, w1)" and
    r: "instantiate api cs w1 = Some (Inr xs, w')" and
    hs: "hs = x # xs"
    by (auto split: option.splits sum.splits prod.splits)
  from Cons.IH [OF r] obtain ws where
    ws: "length ws = Suc (length cs)" "ws ! 0 = w1" "ws ! length cs = w'"
        "length xs = length cs"
        "\<forall>i<length cs. exec_ctor api (cs ! i) (ws ! i) = Some (Inr (xs ! i), ws ! Suc i)"
    by blast
  have "\<forall>i<length (c # cs).
          exec_ctor api ((c # cs) ! i) ((w # ws) ! i) = Some (Inr (hs ! i), (w # ws) ! Suc i)"
  proof (intro allI impI)
    fix i assume "i < length (c # cs)"
    then show "exec_ctor api ((c # cs) ! i) ((w # ws) ! i) =
                 Some (Inr (hs ! i), (w # ws) ! Suc i)"
      using c ws hs by (cases i) simp_all
  qed
  with ws hs show ?case
    by (intro exI [of _ "w # ws"]) simp
qed

lemma applyMiddleware_unfold:
  assumes "createStore reducer args = Inr (base, s0)"
  shows "applyMiddleware n middlewares createStore reducer args (h, m) =
     (case instantiate (middlewareAPI n (getState base)) middlewares
             \<lparr>store_st = s0, mw_st = m, cell = Guard\<rparr> of
        None \<Rightarrow> None
      | Some (Inl e, w1) \<Rightarrow> Some (Inl (e, h @ [store_object base], mw_st w1))
      | Some (Inr chain, w1) \<Rightarrow>
          Some (Inr (Suc (length h),
                     h @ [store_object base,
                          \<lparr>getState = getState base,
                           dispatch = Composed (getState base) chain (Native (dispatch base)),
                           others = others base\<rparr>],
                     w1\<lparr>cell := Composed (getState base) chain (Native (dispatch base))\<rparr>)))"
  using assms
  by (simp add: applyMiddleware_def alloc_def store_object_def Let_def nth_append
           split: option.splits sum.splits prod.splits)

lemma applyMiddleware_Inr:
  assumes cs: "createStore reducer args = Inr (base, s0)"
    and ok: "applyMiddleware n middlewares createStore reducer args (h, m) = Some (Inr (c, h', w))"
  obtains chain w1 where
    "instantiate (middlewareAPI n (getState base)) middlewares
       \<lparr>store_st = s0, mw_st = m, cell = Guard\<rparr> = Some (Inr chain, w1)"
    "c = Suc (length h)"
    "h' = h @ [store_object base,
               \<lparr>getState = getState base,
                dispatch = Composed (getState base) chain (Native (dispatch base)),
                others = others base\<rparr>]"
    "w = w1\<lparr>cell := Composed (getState base) chain (Native (dispatch base))\<rparr>"
  using ok cs
  by (auto simp: applyMiddleware_unfold [where createStore = createStore and reducer = reducer
        and args = args] split: option.splits sum.splits prod.splits)

text \<open>
  The enhanced constructor always returns or throws, and the bound on nested dispatch
  plays no part in it.
\<close>

lemma exec_ctor_fuel:
  "cell w = Guard \<Longrightarrow>
   exec_ctor (middlewareAPI n gs) c w = exec_ctor (middlewareAPI n' gs) c w"
proof (induction c arbitrary: w)
  case (CModify f c)
  from CModify.IH [of "w\<lparr>mw_st := f (mw_st w)\<rparr>"] CModify.prems show ?case by simp
next
  case (CTry b h k)
  from exec_ctor_guard [OF CTry.prems, of n' gs b] obtain res w' where
    b: "exec_ctor (middlewareAPI n' gs) b w = Some (res, w')" "cell w' = Guard"
    by blast
  from CTry.IH(1) [OF CTry.prems] b
  have b': "exec_ctor (middlewareAPI n gs) b w = Some (res, w')" by simp
  show ?case
  proof (cases res)
    case (Inl e)
    from CTry.IH(2) [OF rangeI b(2), of e] b b' Inl show ?thesis by simp
  next
    case (Inr x)
    from CTry.IH(3) [OF rangeI b(2), of x] b b' Inr show ?thesis by simp
  qed
qed (auto simp: rangeI)

lemma instantiate_fuel:
  "cell w = Guard \<Longrightarrow>
   instantiate (middlewareAPI n gs) cs w = instantiate (middlewareAPI n' gs) cs w"
proof (induction cs arbitrary: w)
  case Nil
  show ?case by simp
next
  case (Cons c cs)
  from exec_ctor_guard [OF Cons.prems, of n' gs c] obtain res w' where
    c: "exec_ctor (middlewareAPI n' gs) c w = Some (res, w')" "cell w' = Guard"
    by blast
  from exec_ctor_fuel [OF Cons.prems, of n gs c n'] c
  have c': "exec_ctor (middlewareAPI n gs) c w = Some (res, w')" by simp
  show ?case
  proof (cases res)
    case (Inl e)
    with c c' show ?thesis by simp
  next
    case (Inr x)
    with c c' Cons.IH [OF c(2)] show ?thesis by simp
  qed
qed

lemma applyMiddleware_fuel:
  "applyMiddleware n middlewares createStore reducer args hm =
   applyMiddleware n' middlewares createStore reducer args hm"
proof (cases hm)
  case (Pair h m)
  show ?thesis
  proof (cases "createStore reducer args")
    case (Inl e)
    with Pair show ?thesis by (simp add: applyMiddleware_def)
  next
    case (Inr r)
    then obtain base s0 where cs: "createStore reducer args = Inr (base, s0)"
      by (cases r) simp
    have "instantiate (middlewareAPI n (getState base)) middlewares
            \<lparr>store_st = s0, mw_st = m, cell = Guard\<rparr> =
          instantiate (middlewareAPI n' (getState base)) middlewares
            \<lparr>store_st = s0, mw_st = m, cell = Guard\<rparr>"
      by (rule instantiate_fuel) simp
    with Pair show ?thesis
      by (simp add: applyMiddleware_unfold [where createStore = createStore
            and reducer = reducer and args = args, OF cs])
  qed
qed

lemma applyMiddleware_returns:
  "\<exists>res. applyMiddleware n middlewares createStore reducer args hm = Some res"
proof (cases hm)
  case (Pair h m)
  show ?thesis
  proof (cases "createStore reducer args")
    case (Inl e)
    with Pair show ?thesis by (simp add: applyMiddleware_def)
  next
    case (Inr r)
    then obtain base s0 where cs: "createStore reducer args = Inr (base, s0)"
      by (cases r) simp
    have "cell \<lparr>store_st = s0, mw_st = m, cell = Guard\<rparr> = Guard" by simp
    from instantiate_guard [OF this, of n "getState base" middlewares] obtain res w' where
      "instantiate (middlewareAPI n (getState base)) middlewares
         \<lparr>store_st = s0, mw_st = m, cell = Guard\<rparr> = Some (res, w')"
      by blast
    with Pair show ?thesis
      by (cases res)
        (simp_all add: applyMiddleware_unfold [where createStore = createStore
            and reducer = reducer and args = args, OF cs])
  qed
qed

lemma uncaught_dispatch_throws:
  "cell w = Guard \<Longrightarrow> uncaught_dispatch (middlewareAPI n gs) c w \<Longrightarrow>
   \<exists>w'. exec_ctor (middlewareAPI n gs) c w = Some (Inl guard_error, w')"
proof (induction c arbitrary: w)
  case (CTry b h k)
  from exec_ctor_guard [OF CTry.prems(1), of n gs b] obtain res w' where
    b: "exec_ctor (middlewareAPI n gs) b w = Some (res, w')" "cell w' = Guard"
    by blast
  show ?case
  proof (cases res)
    case (Inl e)
    with CTry.prems(2) b have "uncaught_dispatch (middlewareAPI n gs) (h e) w'" by simp
    from CTry.IH(2) [OF rangeI b(2) this] b Inl show ?thesis by simp
  next
    case (Inr x)
    with CTry.prems(2) b have "uncaught_dispatch (middlewareAPI n gs) (k x) w'" by simp
    from CTry.IH(3) [OF rangeI b(2) this] b Inr show ?thesis by simp
  qed
qed (auto simp: rangeI)

lemma dispatch_while_constructing_throws:
  "cell w = Guard \<Longrightarrow> dispatch_while_constructing (middlewareAPI n gs) cs w \<Longrightarrow>
   \<exists>w'. instantiate (middlewareAPI n gs) cs w = Some (Inl guard_error, w')"
proof (induction cs arbitrary: w)
  case Nil
  then show ?case by simp
next
  case (Cons c cs)
  show ?case
  proof (cases "uncaught_dispatch (middlewareAPI n gs) c w")
    case True
    from uncaught_dispatch_throws [OF Cons.prems(1) True] show ?thesis by auto
  next
    case False
    from exec_ctor_guard [OF Cons.prems(1), of n gs c] obtain res w' where
      c: "exec_ctor (middlewareAPI n gs) c w = Some (res, w')" "cell w' = Guard"
      by blast
    with False Cons.prems(2) obtain x where
      x: "res = Inr x" "dispatch_while_constructing (middlewareAPI n gs) cs w'"
      by (cases res) simp_all
    from Cons.IH [OF c(2) x(2)] c x show ?thesis by auto
  qed
qed

subsection \<open>Dispatching\<close>

text \<open>
  A larger bound on nesting never changes the outcome of a call that returned.
\<close>

lemma exec_handler_mono:
  assumes gs: "api_getState api' = api_getState api"
    and api: "\<And>a w res. api_dispatch api a w = Some res \<Longrightarrow> api_dispatch api' a w = Some res"
    and nxt: "\<And>a w res. nxt a w = Some res \<Longrightarrow> nxt' a w = Some res"
  shows "exec_handler api nxt c w = Some res \<Longrightarrow> exec_handler api' nxt' c w = Some res"
proof (induction c arbitrary: w res)
  case (HGetState k)
  from HGetState.IH [OF rangeI, of "api_getState api w" w res] HGetState.prems gs
  show ?case by simp
next
  case (HModify f c)
  from HModify.IH [of "w\<lparr>mw_st := f (mw_st w)\<rparr>" res] HModify.prems show ?case by simp
next
  case (HInspect k)
  from HInspect.IH [OF rangeI, of "mw_st w" w res] HInspect.prems show ?case by simp
next
  case (HDispatch a k)
  from HDispatch.prems obtain x w1 where
    d: "api_dispatch api a w = Some (x, w1)"
    by (auto split: option.splits)
  show ?case
  proof (cases x)
    case (Inl e)
    with HDispatch.prems d api [OF d] show ?thesis by auto
  next
    case (Inr r)
    with HDispatch.prems d have "exec_handler api nxt (k r) w1 = Some res" by simp
    from HDispatch.IH [OF rangeI this] api [OF d] Inr show ?thesis by simp
  qed
next
  case (HNext a k)
  from HNext.prems obtain x w1 where
    d: "nxt a w = Some (x, w1)"
    by (auto split: option.splits)
  show ?case
  proof (cases x)
    case (Inl e)
    with HNext.prems d nxt [OF d] show ?thesis by auto
  next
    case (Inr r)
    with HNext.prems d have "exec_handler api nxt (k r) w1 = Some res" by simp
    from HNext.IH [OF rangeI this] nxt [OF d] Inr show ?thesis by simp
  qed
next
  case (HTry b h k)
  from HTry.prems obtain x w1 where
    b: "exec_handler api nxt b w = Some (x, w1)"
    by (auto split: option.splits)
  note b' = HTry.IH(1) [OF b]
  show ?case
  proof (cases x)
    case (Inl e)
    with HTry.prems b have "exec_handler api nxt (h e) w1 = Some res" by simp
    from HTry.IH(2) [OF rangeI this] b' Inl show ?thesis by simp
  next
    case (Inr r)
    with HTry.prems b have "exec_handler api nxt (k r) w1 = Some res" by simp
    from HTry.IH(3) [OF rangeI this] b' Inr show ?thesis by simp
  qed
qed auto

lemma compose_mono:
  assumes gs: "api_getState api' = api_getState api"
    and api: "\<And>a w res. api_dispatch api a w = Some res \<Longrightarrow> api_dispatch api' a w = Some res"
    and base: "\<And>a w res. base a w = Some res \<Longrightarrow> base' a w = Some res"
  shows "compose (map (transform api) hs) base a w = Some res \<Longrightarrow>
         compose (map (transform api') hs) base' a w = Some res"
proof (induction hs arbitrary: a w res)
  case Nil
  then show ?case using base by simp
next
  case (Cons h hs)
  from Cons.prems have
    "exec_handler api (compose (map (transform api) hs) base) (h a) w = Some res"
    by (simp only: chain_Cons)
  from exec_handler_mono [OF gs api Cons.IH this] show ?case
    by (simp only: chain_Cons)
qed

lemma call_fuel_Suc:
  fixes d :: "('a, 'r, 'st, 'v, 'm) fn"
  shows "call n d a w = Some res \<Longrightarrow> call (Suc n) d a w = Some res"
proof (induction n arbitrary: d a w res)
  case 0
  then show ?case by (cases d) simp_all
next
  case (Suc n)
  show ?case
  proof (cases d)
    case Guard
    with Suc.prems show ?thesis by simp
  next
    case (Native f)
    with Suc.prems show ?thesis by simp
  next
    case (Composed gs chain b)
    with Suc.prems have
      run: "compose (map (transform (middlewareAPI n gs)) chain) (call n b) a w = Some res"
      by (simp only: call_Composed)
    have gs: "api_getState (middlewareAPI (Suc n) gs :: ('a, 'r, 'st, 'v, 'm) middlewareAPI) =
              api_getState (middlewareAPI n gs :: ('a, 'r, 'st, 'v, 'm) middlewareAPI)"
      by (simp add: middlewareAPI_def)
    have api: "api_dispatch (middlewareAPI (Suc n) gs) a w = Some res"
      if "api_dispatch (middlewareAPI n gs) a w = Some res"
      for a res and w :: "('a, 'r, 'st, 'v, 'm) world"
      using that Suc.IH [of "cell w" a w res] by simp
    from compose_mono [OF gs api Suc.IH run] Composed show ?thesis
      by (simp only: call_Composed)
  qed
qed

lemma call_fuel_mono:
  "call n d a w = Some res \<Longrightarrow> call (n + j) d a w = Some res"
  by (induction j) (simp_all add: call_fuel_Suc del: call.simps)

text \<open>
  No call changes the variable \<^verbatim>\<open>dispatch\<close>.
\<close>

lemma exec_handler_keeps_cell:
  assumes api: "\<And>a w res w'. api_dispatch api a w = Some (res, w') \<Longrightarrow> cell w' = cell w"
    and nxt: "\<And>a w res w'. nxt a w = Some (res, w') \<Longrightarrow> cell w' = cell w"
  shows "exec_handler api nxt c w = Some (res, w') \<Longrightarrow> cell w' = cell w"
proof (induction c arbitrary: w res w')
  case (HModify f c)
  from HModify.IH [of "w\<lparr>mw_st := f (mw_st w)\<rparr>" res w'] HModify.prems show ?case by simp
next
  case (HDispatch a k)
  from HDispatch.prems obtain x w1 where
    d: "api_dispatch api a w = Some (x, w1)"
    by (auto split: option.splits)
  show ?case
  proof (cases x)
    case (Inl e)
    with HDispatch.prems d api [OF d] show ?thesis by simp
  next
    case (Inr r)
    with HDispatch.prems d have "exec_handler api nxt (k r) w1 = Some (res, w')" by simp
    from HDispatch.IH [OF rangeI this] api [OF d] show ?thesis by simp
  qed
next
  case (HNext a k)
  from HNext.prems obtain x w1 where
    d: "nxt a w = Some (x, w1)"
    by (auto split: option.splits)
  show ?case
  proof (cases x)
    case (Inl e)
    with HNext.prems d nxt [OF d] show ?thesis by simp
  next
    case (Inr r)
    with HNext.prems d have "exec_handler api nxt (k r) w1 = Some (res, w')" by simp
    from HNext.IH [OF rangeI this] nxt [OF d] show ?thesis by simp
  qed
next
  case (HTry b h k)
  from HTry.prems obtain x w1 where
    b: "exec_handler api nxt b w = Some (x, w1)"
    by (auto split: option.splits)
  note b' = HTry.IH(1) [OF b]
  show ?case
  proof (cases x)
    case (Inl e)
    with HTry.prems b have "exec_handler api nxt (h e) w1 = Some (res, w')" by simp
    from HTry.IH(2) [OF rangeI this] b' show ?thesis by simp
  next
    case (Inr r)
    with HTry.prems b have "exec_handler api nxt (k r) w1 = Some (res, w')" by simp
    from HTry.IH(3) [OF rangeI this] b' show ?thesis by simp
  qed
next
  case (HGetState k)
  from HGetState.IH [OF rangeI, of "api_getState api w" w res w'] HGetState.prems
  show ?case by simp
next
  case (HInspect k)
  from HInspect.IH [OF rangeI, of "mw_st w" w res w'] HInspect.prems
  show ?case by simp
qed auto

lemma compose_keeps_cell:
  assumes api: "\<And>a w res w'. api_dispatch api a w = Some (res, w') \<Longrightarrow> cell w' = cell w"
    and base: "\<And>a w res w'. base a w = Some (res, w') \<Longrightarrow> cell w' = cell w"
  shows "compose (map (transform api) hs) base a w = Some (res, w') \<Longrightarrow> cell w' = cell w"
proof (induction hs arbitrary: a w res w')
  case Nil
  then show ?case using base by simp
next
  case (Cons h hs)
  from Cons.prems have
    "exec_handler api (compose (map (transform api) hs) base) (h a) w = Some (res, w')"
    by (simp only: chain_Cons)
  from exec_handler_keeps_cell [OF api Cons.IH this] show ?case .
qed

lemma call_keeps_cell:
  fixes d :: "('a, 'r, 'st, 'v, 'm) fn"
  shows "call n d a w = Some (res, w') \<Longrightarrow> cell w' = cell w"
proof (induction n arbitrary: d a w res w')
  case 0
  then show ?case by (cases d) (auto split: prod.splits)
next
  case (Suc n)
  show ?case
  proof (cases d)
    case Guard
    with Suc.prems show ?thesis by simp
  next
    case (Native f)
    with Suc.prems show ?thesis by (auto split: prod.splits)
  next
    case (Composed gs chain b)
    with Suc.prems have
      run: "compose (map (transform (middlewareAPI n gs)) chain) (call n b) a w = Some (res, w')"
      by (simp only: call_Composed)
    have api: "cell w' = cell w"
      if "api_dispatch (middlewareAPI n gs) a w = Some (res, w')"
      for a res and w w' :: "('a, 'r, 'st, 'v, 'm) world"
      using that Suc.IH [of "cell w" a w res w'] by simp
    from compose_keeps_cell [OF api Suc.IH run] show ?thesis .
  qed
qed

lemma exec_handler_without_next:
  "exec_handler api never c w = Some res \<Longrightarrow> exec_handler api nxt c w = Some res"
proof (induction c arbitrary: w res)
  case (HNext a k)
  then show ?case by (simp add: never_def)
next
  case (HTry b h k)
  from HTry.prems obtain x w1 where
    b: "exec_handler api never b w = Some (x, w1)"
    by (auto split: option.splits)
  note b' = HTry.IH(1) [OF b]
  show ?case
  proof (cases x)
    case (Inl e)
    with HTry.prems b have "exec_handler api never (h e) w1 = Some res" by simp
    from HTry.IH(2) [OF rangeI this] b' Inl show ?thesis by simp
  next
    case (Inr r)
    with HTry.prems b have "exec_handler api never (k r) w1 = Some res" by simp
    from HTry.IH(3) [OF rangeI this] b' Inr show ?thesis by simp
  qed
next
  case (HDispatch a k)
  then show ?case
    by (auto simp: rangeI split: option.splits sum.splits prod.splits)
qed (auto simp: rangeI)

lemma dispatch_seq_cong:
  "(\<And>a w. d a w = d' a w) \<Longrightarrow> dispatch_seq d as w = dispatch_seq d' as w"
  by (induction as arbitrary: w) (simp_all split: option.splits)

lemma logging_chain:
  "compose (map (transform api) (map logging ls)) nxt a w =
     (case nxt a (w\<lparr>mw_st := mw_st w @ map (\<lambda>l. l @ ''-before'') ls\<rparr>) of
        None \<Rightarrow> None
      | Some (Inl e, w') \<Rightarrow> Some (Inl e, w')
      | Some (Inr r, w') \<Rightarrow>
          Some (Inr r, w'\<lparr>mw_st := mw_st w' @ rev (map (\<lambda>l. l @ ''-after'') ls)\<rparr>))"
proof (induction ls arbitrary: w)
  case Nil
  show ?case by (simp split: option.splits sum.splits prod.splits)
next
  case (Cons l ls)
  have "compose (map (transform api) (map logging (l # ls))) nxt a w =
        exec_handler api (compose (map (transform api) (map logging ls)) nxt) (logging l a) w"
    by (simp only: list.map compose_Cons transform_apply)
  also have "\<dots> =
     (case compose (map (transform api) (map logging ls)) nxt a
             (w\<lparr>mw_st := mw_st w @ [l @ ''-before'']\<rparr>) of
        None \<Rightarrow> None
      | Some (Inl e, w') \<Rightarrow> Some (Inl e, w')
      | Some (Inr r, w') \<Rightarrow> Some (Inr r, w'\<lparr>mw_st := mw_st w' @ [l @ ''-after'']\<rparr>))"
    by (simp add: logging_def split: option.splits sum.splits prod.splits)
  also have "\<dots> =
     (case nxt a (w\<lparr>mw_st := mw_st w @ map (\<lambda>l. l @ ''-before'') (l # ls)\<rparr>) of
        None \<Rightarrow> None
      | Some (Inl e, w') \<Rightarrow> Some (Inl e, w')
      | Some (Inr r, w') \<Rightarrow>
          Some (Inr r, w'\<lparr>mw_st := mw_st w' @ rev (map (\<lambda>l. l @ ''-after'') (l # ls))\<rparr>))"
    unfolding Cons.IH by (simp split: option.splits sum.splits prod.splits)
  finally show ?case .
qed

subsection \<open>The example inputs\<close>

lemma int_store_base: "int_store reducer init = Inr (int_base reducer, init)"
  by (simp add: int_store_def)

lemma announcing_run:
  "exec_ctor api (announcing l) w = Some (Inr forward, w\<lparr>mw_st := mw_st w @ [l]\<rparr>)"
  by (simp add: announcing_def)

lemma eager_run:
  "cell w = Guard \<Longrightarrow> exec_ctor (middlewareAPI n gs) eager w = Some (Inl guard_error, w)"
  by (simp add: eager_def)

lemma instantiate_loggers:
  "instantiate api (map logger ls) w = Some (Inr (map logging ls), w)"
  by (induction ls) (simp_all add: logger_def)

section \<open>The claims\<close>

subsection \<open>Dispatch during construction\<close>

text \<open>
  C1, as amended. A call of \<^verbatim>\<open>api.dispatch\<close> made while the middlewares are being
  constructed throws the guard error. When a constructor reaches such a call outside
  every \<^verbatim>\<open>try\<close> block of its own, after the constructors before it returned, the
  enhanced constructor throws the guard error and returns no container.
\<close>

theorem dispatch_in_constructor_fails:
  fixes middlewares :: "('a, 'r, 'v, 'm) ctor_code list"
    and w :: "('a, 'r, 'st, 'v, 'm) world"
  assumes cs: "createStore reducer args = Inr (base, s0)"
    and misuse: "dispatch_while_constructing (middlewareAPI n (getState base)) middlewares
                   \<lparr>store_st = s0, mw_st = m, cell = Guard\<rparr>"
    and unbound: "cell w = Guard"
  shows "api_dispatch (middlewareAPI n (getState base)) a w = Some (Inl guard_error, w) \<and>
         (\<exists>m'. applyMiddleware n middlewares createStore reducer args (h, m) =
                  Some (Inl (guard_error, h @ [store_object base], m')))"
proof -
  have "cell \<lparr>store_st = s0, mw_st = m, cell = Guard\<rparr> = Guard" by simp
  from dispatch_while_constructing_throws [OF this misuse] obtain w' where
    "instantiate (middlewareAPI n (getState base)) middlewares
       \<lparr>store_st = s0, mw_st = m, cell = Guard\<rparr> = Some (Inl guard_error, w')"
    by blast
  with cs have "\<exists>m'. applyMiddleware n middlewares createStore reducer args (h, m) =
                  Some (Inl (guard_error, h @ [store_object base], m'))"
    by (simp add: applyMiddleware_unfold [where createStore = createStore and reducer = reducer
          and args = args])
  moreover have "api_dispatch (middlewareAPI n (getState base)) a w = Some (Inl guard_error, w)"
    using unbound by simp
  ultimately show ?thesis by blast
qed

theorem dispatch_in_constructor_fails_witness:
  "int_store (+) 5 = Inr (int_base (+), 5) \<and>
   dispatch_while_constructing (middlewareAPI 0 (getState (int_base (+))))
     [announcing ''A'', eager, announcing ''C''] \<lparr>store_st = 5, mw_st = [], cell = Guard\<rparr> \<and>
   cell fresh_world = Guard \<and>
   api_dispatch (middlewareAPI 0 (getState (int_base (+)))) 1 fresh_world =
     Some (Inl guard_error, fresh_world) \<and>
   (\<exists>m'. applyMiddleware 0 [announcing ''A'', eager, announcing ''C''] int_store (+) 5 ([], []) =
            Some (Inl (guard_error, [] @ [store_object (int_base (+))], m')))"
proof -
  have misuse: "dispatch_while_constructing (middlewareAPI 0 (getState (int_base (+))))
     [announcing ''A'', eager, announcing ''C''] \<lparr>store_st = 5, mw_st = [], cell = Guard\<rparr>"
    by (simp add: announcing_def eager_def)
  have unbound: "cell fresh_world = Guard"
    by (simp add: fresh_world_def)
  from dispatch_in_constructor_fails [where createStore = int_store and reducer = "(+)"
      and args = 5 and h = "[]" and a = 1, OF int_store_base misuse unbound]
    int_store_base [of "(+)" 5] misuse unbound
  show ?thesis by blast
qed

text \<open>
  C1 as stated fails: the constructor \<open>cautious\<close> calls \<^verbatim>\<open>api.dispatch\<close> while it
  is constructed, the call throws the guard error, the constructor catches it, and the
  enhanced constructor returns a container.
\<close>

theorem dispatch_in_constructor_counterexample:
  "exec_ctor (middlewareAPI 0 (getState (int_base (+)))) eager fresh_world =
     Some (Inl guard_error, fresh_world) \<and>
   applyMiddleware 0 [cautious] int_store (+) 5 ([], []) =
     Some (Inr (1,
       [store_object (int_base (+)),
        (store_object (int_base (+)))\<lparr>dispatch := wrapped [forward]\<rparr>],
       fresh_world\<lparr>cell := wrapped [forward]\<rparr>))"
  by (simp add: applyMiddleware_unfold [where createStore = int_store and reducer = "(+)"
        and args = 5, OF int_store_base] eager_run cautious_def swallow_def
        wrapped_def store_object_def fresh_world_def)

subsection \<open>No middleware\<close>

text \<open>
  C2. When \<^verbatim>\<open>createStore\<close> yields a store and no middleware is supplied, the enhanced
  constructor returns a container whose dispatch, for every list of actions dispatched
  in turn from every state and with every bound on nesting, gives the same outcomes and
  leaves the same state as the dispatch of the base store object.
\<close>

theorem zero_middlewares_dispatch:
  assumes "createStore reducer args = Inr (base, s0)"
  shows "\<exists>c h' w.
           applyMiddleware n [] createStore reducer args (h, m) = Some (Inr (c, h', w)) \<and>
           store_st w = s0 \<and>
           dispatch (h' ! length h) = Native (dispatch base) \<and>
           (\<forall>k j as w'. dispatch_seq (call (Suc k) (dispatch (h' ! c))) as w' =
                         dispatch_seq (call j (dispatch (h' ! length h))) as w')"
proof -
  let ?d = "Composed (getState base) [] (Native (dispatch base))"
  let ?h' = "h @ [store_object base,
                  \<lparr>getState = getState base, dispatch = ?d, others = others base\<rparr>]"
  let ?w = "\<lparr>store_st = s0, mw_st = m, cell = ?d\<rparr>"
  have built: "applyMiddleware n [] createStore reducer args (h, m) =
                 Some (Inr (Suc (length h), ?h', ?w))"
    using assms by (simp add: applyMiddleware_unfold [where createStore = createStore and reducer = reducer and args = args])
  have base_obj: "dispatch (?h' ! length h) = Native (dispatch base)"
    by (simp add: nth_append store_object_def)
  have new_obj: "dispatch (?h' ! Suc (length h)) = ?d"
    by (simp add: nth_append)
  have same: "call (Suc k) ?d a w' = call j (Native (dispatch base)) a w'" for k j a w'
    by simp
  have seq: "dispatch_seq (call (Suc k) (dispatch (?h' ! Suc (length h)))) as w' =
        dispatch_seq (call j (dispatch (?h' ! length h))) as w'" for k j as w'
    unfolding base_obj new_obj by (rule dispatch_seq_cong) (rule same)
  show ?thesis
  proof (intro exI conjI allI)
    show "applyMiddleware n [] createStore reducer args (h, m) =
            Some (Inr (Suc (length h), ?h', ?w))"
      by (rule built)
    show "store_st ?w = s0" by simp
    show "dispatch (?h' ! length h) = Native (dispatch base)" by (rule base_obj)
    show "dispatch_seq (call (Suc k) (dispatch (?h' ! Suc (length h)))) as w' =
          dispatch_seq (call j (dispatch (?h' ! length h))) as w'" for k j as w'
      by (rule seq)
  qed
qed

theorem zero_middlewares_dispatch_witness:
  "int_store (+) 5 = Inr (int_base (+), 5) \<and>
   (\<exists>c h' w.
      applyMiddleware 0 ([] :: (int, int, int, unit) ctor_code list) int_store (+) 5 ([], ()) =
        Some (Inr (c, h', w)) \<and>
      store_st w = 5 \<and>
      dispatch (h' ! 0) = Native (dispatch (int_base (+))) \<and>
      (\<forall>k j as w'. dispatch_seq (call (Suc k) (dispatch (h' ! c))) as w' =
                     dispatch_seq (call j (dispatch (h' ! 0))) as w'))"
  using int_store_base [of "(+)" 5]
    zero_middlewares_dispatch [where createStore = int_store and reducer = "(+)"
      and args = 5 and n = 0 and h = "[]" and m = "()", OF int_store_base, unfolded list.size]
  by blast

subsection \<open>Order of the handlers\<close>

text \<open>
  C3. For middlewares that log their label before and after calling \<^verbatim>\<open>next\<close>, supplied
  in the order \<open>ls\<close>, one call of the composed dispatch on an action the base dispatch
  accepts returns the base dispatch's result, applies the base dispatch once and appends
  to the log the before-entries in the supplied order followed by the after-entries in
  the reverse order. For the labels A, B, C this is
  A-before, B-before, C-before, C-after, B-after, A-after.
\<close>

theorem logging_chain_trace:
  assumes cs: "createStore reducer args = Inr (base, s0)"
    and base_ok: "dispatch base a (store_st w') = (Inr r, s')"
  shows "\<exists>c h' w.
           applyMiddleware n (map logger ls) createStore reducer args (h, m) =
             Some (Inr (c, h', w)) \<and>
           store_st w = s0 \<and> mw_st w = m \<and>
           call (Suc k) (dispatch (h' ! c)) a w' =
             Some (Inr r,
                   w'\<lparr>store_st := s',
                      mw_st := mw_st w' @ map (\<lambda>l. l @ ''-before'') ls @
                               rev (map (\<lambda>l. l @ ''-after'') ls)\<rparr>)"
proof -
  let ?d = "Composed (getState base) (map logging ls) (Native (dispatch base))"
  let ?h' = "h @ [store_object base,
                  \<lparr>getState = getState base, dispatch = ?d, others = others base\<rparr>]"
  let ?w = "\<lparr>store_st = s0, mw_st = m, cell = ?d\<rparr>"
  have built: "applyMiddleware n (map logger ls) createStore reducer args (h, m) =
                 Some (Inr (Suc (length h), ?h', ?w))"
    using cs
    by (simp add: applyMiddleware_unfold [where createStore = createStore and reducer = reducer
          and args = args] instantiate_loggers)
  have obj: "dispatch (?h' ! Suc (length h)) = ?d"
    by (simp add: nth_append)
  have run: "call (Suc k) ?d a w' =
             Some (Inr r,
                   w'\<lparr>store_st := s',
                      mw_st := mw_st w' @ map (\<lambda>l. l @ ''-before'') ls @
                               rev (map (\<lambda>l. l @ ''-after'') ls)\<rparr>)"
    unfolding call_Composed logging_chain using base_ok by simp
  show ?thesis
  proof (intro exI conjI)
    show "applyMiddleware n (map logger ls) createStore reducer args (h, m) =
            Some (Inr (Suc (length h), ?h', ?w))"
      by (rule built)
    show "store_st ?w = s0" "mw_st ?w = m" by simp_all
    show "call (Suc k) (dispatch (?h' ! Suc (length h))) a w' =
             Some (Inr r,
                   w'\<lparr>store_st := s',
                      mw_st := mw_st w' @ map (\<lambda>l. l @ ''-before'') ls @
                               rev (map (\<lambda>l. l @ ''-after'') ls)\<rparr>)"
      unfolding obj by (rule run)
  qed
qed

theorem logging_chain_trace_witness:
  "\<exists>c h' w.
     int_store (+) 5 = Inr (int_base (+), 5) \<and>
     dispatch (int_base (+)) 3 (store_st w) = (Inr 3, 8) \<and>
     applyMiddleware 0 (map logger [''A'', ''B'', ''C'']) int_store (+) 5 ([], []) =
       Some (Inr (c, h', w)) \<and>
     call (Suc 0) (dispatch (h' ! c)) 3 w =
       Some (Inr 3,
             w\<lparr>store_st := 8,
               mw_st := [''A-before'', ''B-before'', ''C-before'',
                         ''C-after'', ''B-after'', ''A-after'']\<rparr>)"
proof -
  let ?w = "\<lparr>store_st = 5, mw_st = [],
             cell = wrapped (map logging [''A'', ''B'', ''C''])\<rparr>"
  have base_ok: "dispatch (int_base (+)) 3 (store_st ?w) = (Inr 3, 8)"
    by (simp add: int_base_def)
  have built: "\<exists>c h'. applyMiddleware 0 (map logger [''A'', ''B'', ''C'']) int_store (+) 5
                         ([], []) = Some (Inr (c, h', ?w))"
    by (simp add: applyMiddleware_unfold [where createStore = int_store and reducer = "(+)"
          and args = 5, OF int_store_base] instantiate_loggers wrapped_def del: list.map)
  from logging_chain_trace [where createStore = int_store and reducer = "(+)" and args = 5
      and n = 0 and k = 0 and h = "[]" and m = "[]" and ls = "[''A'', ''B'', ''C'']",
      OF int_store_base base_ok]
  obtain c h' w where
    ok: "applyMiddleware 0 (map logger [''A'', ''B'', ''C'']) int_store (+) 5 ([], []) =
           Some (Inr (c, h', w))" and
    run: "call (Suc 0) (dispatch (h' ! c)) 3 ?w =
            Some (Inr 3,
                  ?w\<lparr>store_st := 8,
                     mw_st := mw_st ?w @ map (\<lambda>l. l @ ''-before'') [''A'', ''B'', ''C''] @
                              rev (map (\<lambda>l. l @ ''-after'') [''A'', ''B'', ''C''])\<rparr>)"
    by blast
  from built ok have w: "w = ?w" by auto
  have log: "mw_st ?w @ map (\<lambda>l. l @ ''-before'') [''A'', ''B'', ''C''] @
               rev (map (\<lambda>l. l @ ''-after'') [''A'', ''B'', ''C'']) =
             [''A-before'', ''B-before'', ''C-before'', ''C-after'', ''B-after'', ''A-after'']"
    by simp
  show ?thesis
  proof (intro exI conjI)
    show "int_store (+) 5 = Inr (int_base (+), 5)" by (rule int_store_base)
    show "dispatch (int_base (+)) 3 (store_st ?w) = (Inr 3, 8)" by (rule base_ok)
    show "applyMiddleware 0 (map logger [''A'', ''B'', ''C'']) int_store (+) 5 ([], []) =
            Some (Inr (c, h', ?w))"
      using ok w by simp
    show "call (Suc 0) (dispatch (h' ! c)) 3 ?w =
            Some (Inr 3,
              ?w\<lparr>store_st := 8,
                 mw_st := [''A-before'', ''B-before'', ''C-before'',
                           ''C-after'', ''B-after'', ''A-after'']\<rparr>)"
      using run unfolding log .
  qed
qed

subsection \<open>The variable dispatch after construction\<close>

text \<open>
  C4. When the enhanced constructor has returned a container, the variable
  \<^verbatim>\<open>dispatch\<close> holds the composed function and not the throwing one; no later call of
  any dispatch function changes it; \<^verbatim>\<open>api.dispatch\<close> is then a call of the composed
  function, and such a call starts with the handler of the first middleware, whose
  \<^verbatim>\<open>next\<close> is the rest of the chain around the base dispatch.
\<close>

theorem cell_bound_after_construction:
  assumes cs: "createStore reducer args = Inr (base, s0)"
    and ok: "applyMiddleware n middlewares createStore reducer args (h, m) = Some (Inr (c, h', w))"
  shows "cell w = dispatch (h' ! c) \<and> cell w \<noteq> Guard \<and>
         (\<forall>k d a w1 res w2.
            cell w1 = cell w \<longrightarrow> call k d a w1 = Some (res, w2) \<longrightarrow> cell w2 = cell w) \<and>
         (\<forall>k a w1.
            cell w1 = cell w \<longrightarrow>
            api_dispatch (middlewareAPI k (getState base)) a w1 =
              call k (dispatch (h' ! c)) a w1) \<and>
         (\<exists>chain.
            dispatch (h' ! c) = Composed (getState base) chain (Native (dispatch base)) \<and>
            (\<forall>k a w1 first rest.
               chain = first # rest \<longrightarrow>
               call (Suc k) (dispatch (h' ! c)) a w1 =
                 exec_handler (middlewareAPI k (getState base))
                   (compose (map (transform (middlewareAPI k (getState base))) rest)
                      (call k (Native (dispatch base))))
                   (first a) w1))"
proof -
  from cs ok obtain chain w1 where
    c: "c = Suc (length h)" and
    h': "h' = h @ [store_object base,
               \<lparr>getState = getState base,
                dispatch = Composed (getState base) chain (Native (dispatch base)),
                others = others base\<rparr>]" and
    w: "w = w1\<lparr>cell := Composed (getState base) chain (Native (dispatch base))\<rparr>"
    by (rule applyMiddleware_Inr)
  let ?d = "Composed (getState base) chain (Native (dispatch base))"
  have obj: "dispatch (h' ! c) = ?d"
    by (simp add: c h' nth_append)
  have cw: "cell w = ?d"
    by (simp add: w)
  have keeps: "cell w2 = cell w"
    if "cell w1 = cell w" "call k d a w1 = Some (res, w2)" for k d a w1 res w2
    using call_keeps_cell [OF that(2)] that(1) by simp
  have reenter: "api_dispatch (middlewareAPI k (getState base)) a w1 = call k ?d a w1"
    if "cell w1 = cell w" for k a w1
    using that cw by simp
  have top: "call (Suc k) ?d a w1 =
                 exec_handler (middlewareAPI k (getState base))
                   (compose (map (transform (middlewareAPI k (getState base))) rest)
                      (call k (Native (dispatch base))))
                   (first a) w1"
    if "chain = first # rest" for k a w1 first rest
    unfolding that by (simp only: call_Composed chain_Cons)
  have c3: "\<forall>k d a w1 res w2.
              cell w1 = cell w \<longrightarrow> call k d a w1 = Some (res, w2) \<longrightarrow> cell w2 = cell w"
    using keeps by blast
  have c4: "\<forall>k a w1. cell w1 = cell w \<longrightarrow>
              api_dispatch (middlewareAPI k (getState base)) a w1 = call k ?d a w1"
    using reenter by blast
  have c5: "\<forall>k a w1 first rest.
               chain = first # rest \<longrightarrow>
               call (Suc k) ?d a w1 =
                 exec_handler (middlewareAPI k (getState base))
                   (compose (map (transform (middlewareAPI k (getState base))) rest)
                      (call k (Native (dispatch base))))
                   (first a) w1"
    using top by blast
  have c2: "cell w \<noteq> Guard"
    by (simp add: cw)
  show ?thesis
    unfolding obj
    by (intro conjI exI [of _ chain]) (rule cw c2 c3 c4 c5 refl)+
qed

theorem cell_bound_after_construction_witness:
  "\<exists>c h' w.
     int_store (+) 5 = Inr (int_base (+), 5) \<and>
     applyMiddleware 0 [logger ''A'', CReturn redispatch] int_store (+) 5 ([], []) =
       Some (Inr (c, h', w)) \<and>
     cell w = dispatch (h' ! c) \<and>
     cell w = wrapped [logging ''A'', redispatch] \<and>
     api_dispatch (middlewareAPI (Suc 0) (getState (int_base (+)))) 1 w =
       call (Suc 0) (dispatch (h' ! c)) 1 w \<and>
     call (Suc (Suc 0)) (dispatch (h' ! c)) 0 w =
       Some (Inr 0,
             w\<lparr>store_st := 6,
               mw_st := [''A-before'', ''A-before'', ''A-after'', ''A-after'']\<rparr>) \<and>
     cell (w\<lparr>store_st := 6,
              mw_st := [''A-before'', ''A-before'', ''A-after'', ''A-after'']\<rparr>) = cell w"
proof -
  let ?w = "fresh_world\<lparr>cell := wrapped [logging ''A'', redispatch]\<rparr>"
  let ?h = "[store_object (int_base (+)),
             (store_object (int_base (+)))\<lparr>dispatch := wrapped [logging ''A'', redispatch]\<rparr>]"
  let ?w' = "?w\<lparr>store_st := 6,
                 mw_st := [''A-before'', ''A-before'', ''A-after'', ''A-after'']\<rparr>"
  have ok: "applyMiddleware 0 [logger ''A'', CReturn redispatch] int_store (+) 5 ([], []) =
              Some (Inr (1, ?h, ?w))"
    by (simp add: applyMiddleware_unfold [where createStore = int_store and reducer = "(+)"
          and args = 5, OF int_store_base] logger_def wrapped_def store_object_def
          fresh_world_def)
  have run: "call (Suc (Suc 0)) (dispatch (?h ! 1)) 0 ?w = Some (Inr 0, ?w')"
    by (simp add: wrapped_def logging_def redispatch_def int_base_def store_object_def
          fresh_world_def)
  note bound = cell_bound_after_construction [where createStore = int_store and reducer = "(+)"
      and args = 5, OF int_store_base ok]
  from bound have same: "cell ?w = dispatch (?h ! 1)" by blast
  from bound have kept: "cell ?w' = cell ?w"
    using run by blast
  from bound have reenter: "api_dispatch (middlewareAPI (Suc 0) (getState (int_base (+)))) 1 ?w =
       call (Suc 0) (dispatch (?h ! 1)) 1 ?w"
    by blast
  have val: "cell ?w = wrapped [logging ''A'', redispatch]" by simp
  show ?thesis
  proof (intro exI conjI)
    show "int_store (+) 5 = Inr (int_base (+), 5)" by (rule int_store_base)
    show "applyMiddleware 0 [logger ''A'', CReturn redispatch] int_store (+) 5 ([], []) =
              Some (Inr (1, ?h, ?w))" by (rule ok)
    show "cell ?w = dispatch (?h ! 1)" by (rule same)
    show "cell ?w = wrapped [logging ''A'', redispatch]" by (rule val)
    show "api_dispatch (middlewareAPI (Suc 0) (getState (int_base (+)))) 1 ?w =
       call (Suc 0) (dispatch (?h ! 1)) 1 ?w" by (rule reenter)
    show "call (Suc (Suc 0)) (dispatch (?h ! 1)) 0 ?w = Some (Inr 0, ?w')" by (rule run)
    show "cell ?w' = cell ?w" by (rule kept)
  qed
qed

subsection \<open>Instantiation\<close>

text \<open>
  C5. When the enhanced constructor returns a container, the chain has one handler for
  each middleware, in the supplied order: there is a sequence of states, starting with
  the state after \<^verbatim>\<open>createStore\<close> and ending with the state at the composition, in which
  the i-th constructor, run once on the i-th state with the one \<^verbatim>\<open>middlewareAPI\<close>,
  returned the i-th handler and left the next state.
\<close>

theorem constructors_once_in_order:
  assumes cs: "createStore reducer args = Inr (base, s0)"
    and ok: "applyMiddleware n middlewares createStore reducer args (h, m) = Some (Inr (c, h', w))"
  shows "\<exists>chain ws.
           dispatch (h' ! c) = Composed (getState base) chain (Native (dispatch base)) \<and>
           length chain = length middlewares \<and>
           length ws = Suc (length middlewares) \<and>
           ws ! 0 = \<lparr>store_st = s0, mw_st = m, cell = Guard\<rparr> \<and>
           w = (ws ! length middlewares)\<lparr>cell := dispatch (h' ! c)\<rparr> \<and>
           (\<forall>i<length middlewares.
              exec_ctor (middlewareAPI n (getState base)) (middlewares ! i) (ws ! i) =
                Some (Inr (chain ! i), ws ! Suc i))"
proof -
  from cs ok obtain chain w1 where
    inst: "instantiate (middlewareAPI n (getState base)) middlewares
       \<lparr>store_st = s0, mw_st = m, cell = Guard\<rparr> = Some (Inr chain, w1)" and
    c: "c = Suc (length h)" and
    h': "h' = h @ [store_object base,
               \<lparr>getState = getState base,
                dispatch = Composed (getState base) chain (Native (dispatch base)),
                others = others base\<rparr>]" and
    w: "w = w1\<lparr>cell := Composed (getState base) chain (Native (dispatch base))\<rparr>"
    by (rule applyMiddleware_Inr)
  have obj: "dispatch (h' ! c) = Composed (getState base) chain (Native (dispatch base))"
    by (simp add: c h' nth_append)
  from instantiate_trace [OF inst] obtain ws where
    "length ws = Suc (length middlewares)"
    "ws ! 0 = \<lparr>store_st = s0, mw_st = m, cell = Guard\<rparr>"
    "ws ! length middlewares = w1"
    "length chain = length middlewares"
    "\<forall>i<length middlewares.
        exec_ctor (middlewareAPI n (getState base)) (middlewares ! i) (ws ! i) =
          Some (Inr (chain ! i), ws ! Suc i)"
    by blast
  with obj w show ?thesis by (intro exI [of _ chain] exI [of _ ws]) simp
qed

theorem constructors_once_in_order_witness:
  "\<exists>c h' w chain ws.
     int_store (+) 5 = Inr (int_base (+), 5) \<and>
     applyMiddleware 0 [announcing ''A'', announcing ''B'', announcing ''C'']
       int_store (+) 5 ([], []) = Some (Inr (c, h', w)) \<and>
     mw_st w = [''A'', ''B'', ''C''] \<and>
     dispatch (h' ! c) =
       Composed (getState (int_base (+))) chain (Native (dispatch (int_base (+)))) \<and>
     length chain = 3 \<and> length ws = 4 \<and>
     ws ! 0 = fresh_world \<and>
     w = (ws ! 3)\<lparr>cell := dispatch (h' ! c)\<rparr> \<and>
     exec_ctor (middlewareAPI 0 (getState (int_base (+)))) (announcing ''A'') (ws ! 0) =
       Some (Inr (chain ! 0), ws ! 1) \<and>
     exec_ctor (middlewareAPI 0 (getState (int_base (+)))) (announcing ''B'') (ws ! 1) =
       Some (Inr (chain ! 1), ws ! 2) \<and>
     exec_ctor (middlewareAPI 0 (getState (int_base (+)))) (announcing ''C'') (ws ! 2) =
       Some (Inr (chain ! 2), ws ! 3)"
proof -
  let ?ms = "[announcing ''A'', announcing ''B'', announcing ''C'']"
  have "\<exists>c h' w. applyMiddleware 0 ?ms int_store (+) 5 ([], []) = Some (Inr (c, h', w)) \<and>
                  mw_st w = [''A'', ''B'', ''C'']"
    by (simp add: applyMiddleware_unfold [where createStore = int_store and reducer = "(+)"
          and args = 5, OF int_store_base] announcing_run)
  then obtain c h' w where
    ok: "applyMiddleware 0 ?ms int_store (+) 5 ([], []) = Some (Inr (c, h', w))" and
    log: "mw_st w = [''A'', ''B'', ''C'']"
    by blast
  from constructors_once_in_order [where createStore = int_store and reducer = "(+)"
      and args = 5, OF int_store_base ok]
  obtain chain ws where
    d: "dispatch (h' ! c) =
          Composed (getState (int_base (+))) chain (Native (dispatch (int_base (+))))" and
    len: "length chain = length ?ms" "length ws = Suc (length ?ms)" and
    first: "ws ! 0 = \<lparr>store_st = 5, mw_st = [], cell = Guard\<rparr>" and
    last: "w = (ws ! length ?ms)\<lparr>cell := dispatch (h' ! c)\<rparr>" and
    each: "\<forall>i<length ?ms.
             exec_ctor (middlewareAPI 0 (getState (int_base (+)))) (?ms ! i) (ws ! i) =
               Some (Inr (chain ! i), ws ! Suc i)"
    by blast
  have e0: "exec_ctor (middlewareAPI 0 (getState (int_base (+)))) (announcing ''A'') (ws ! 0) =
           Some (Inr (chain ! 0), ws ! 1)"
    using each [rule_format, of 0] by (simp add: numeral_2_eq_2 numeral_3_eq_3)
  have e1: "exec_ctor (middlewareAPI 0 (getState (int_base (+)))) (announcing ''B'') (ws ! 1) =
           Some (Inr (chain ! 1), ws ! 2)"
    using each [rule_format, of "Suc 0"] by (simp add: numeral_2_eq_2 numeral_3_eq_3)
  have e2: "exec_ctor (middlewareAPI 0 (getState (int_base (+)))) (announcing ''C'') (ws ! 2) =
           Some (Inr (chain ! 2), ws ! 3)"
    using each [rule_format, of "Suc (Suc 0)"] by (simp add: numeral_2_eq_2 numeral_3_eq_3)
  show ?thesis
  proof (intro exI conjI)
    show "int_store (+) 5 = Inr (int_base (+), 5)" by (rule int_store_base)
    show "applyMiddleware 0 ?ms int_store (+) 5 ([], []) = Some (Inr (c, h', w))" by (rule ok)
    show "mw_st w = [''A'', ''B'', ''C'']" by (rule log)
    show "dispatch (h' ! c) =
          Composed (getState (int_base (+))) chain (Native (dispatch (int_base (+))))"
      by (rule d)
    show "length chain = 3" "length ws = 4" using len by simp_all
    show "ws ! 0 = fresh_world" using first by (simp add: fresh_world_def)
    show "w = (ws ! 3)\<lparr>cell := dispatch (h' ! c)\<rparr>"
      using last by (simp add: numeral_3_eq_3)
    show "exec_ctor (middlewareAPI 0 (getState (int_base (+)))) (announcing ''A'') (ws ! 0) =
           Some (Inr (chain ! 0), ws ! 1)" by (rule e0)
    show "exec_ctor (middlewareAPI 0 (getState (int_base (+)))) (announcing ''B'') (ws ! 1) =
           Some (Inr (chain ! 1), ws ! 2)" by (rule e1)
    show "exec_ctor (middlewareAPI 0 (getState (int_base (+)))) (announcing ''C'') (ws ! 2) =
           Some (Inr (chain ! 2), ws ! 3)" by (rule e2)
  qed
qed

subsection \<open>Short circuit\<close>

text \<open>
  C6. If a handler returns (a value or an error) for an action without calling
  \<^verbatim>\<open>next\<close>, then the chain from that handler on gives that outcome and that state
  whatever the later handlers and the wrapped dispatch are: none of them runs. The
  handlers before it reach the rest of the chain only through that function.
\<close>

theorem short_circuit_skips_rest:
  assumes quiet: "exec_handler (middlewareAPI n gs) never (h a) w = Some res"
  shows "compose (map (transform (middlewareAPI n gs)) (h # post)) (call n b) a w = Some res \<and>
         call (Suc n) (Composed gs (h # post) b) a w = Some res \<and>
         call (Suc n) (Composed gs (pre @ h # post) b) =
           compose (map (transform (middlewareAPI n gs)) pre)
             (compose (map (transform (middlewareAPI n gs)) (h # post)) (call n b))"
proof -
  have one: "compose (map (transform (middlewareAPI n gs)) (h # post)) (call n b) a w = Some res"
    by (simp only: list.map compose_Cons transform_apply exec_handler_without_next [OF quiet])
  have two: "call (Suc n) (Composed gs (h # post) b) a w = Some res"
    by (simp only: call_Composed one)
  have three: "call (Suc n) (Composed gs (pre @ h # post) b) =
           compose (map (transform (middlewareAPI n gs)) pre)
             (compose (map (transform (middlewareAPI n gs)) (h # post)) (call n b))"
    by (simp only: call_Composed map_append compose_append)
  from one two three show ?thesis by blast
qed

theorem short_circuit_skips_rest_witness:
  "exec_handler (middlewareAPI 0 (getState (int_base (+)))) never (stop 3) fresh_world =
     Some (Inr 0, fresh_world\<lparr>mw_st := [''stop'']\<rparr>) \<and>
   call (Suc 0) (wrapped (stop # [logging ''C''])) 3 fresh_world =
     Some (Inr 0, fresh_world\<lparr>mw_st := [''stop'']\<rparr>) \<and>
   call (Suc 0) (wrapped ([logging ''A''] @ stop # [logging ''C''])) 3 fresh_world =
     Some (Inr 0, fresh_world\<lparr>mw_st := [''A-before'', ''stop'', ''A-after'']\<rparr>)"
proof -
  have quiet: "exec_handler (middlewareAPI 0 (getState (int_base (+)))) never (stop 3) fresh_world =
     Some (Inr 0, fresh_world\<lparr>mw_st := [''stop'']\<rparr>)"
    by (simp add: stop_def fresh_world_def)
  note rest = short_circuit_skips_rest [where h = stop and a = 3
      and post = "[logging ''C'']" and b = "Native (dispatch (int_base (+)))"
      and pre = "[logging ''A'']", OF quiet, folded wrapped_def]
  have whole: "call (Suc 0) (wrapped ([logging ''A''] @ stop # [logging ''C''])) 3 fresh_world =
     Some (Inr 0, fresh_world\<lparr>mw_st := [''A-before'', ''stop'', ''A-after'']\<rparr>)"
    by (simp add: wrapped_def logging_def stop_def fresh_world_def)
  from quiet rest whole show ?thesis by blast
qed

subsection \<open>The returned container\<close>

text \<open>
  C7. The object the enhanced constructor returns is the store object with its
  \<^verbatim>\<open>dispatch\<close> field replaced by the composed function, the value of the variable
  \<^verbatim>\<open>dispatch\<close>; \<^verbatim>\<open>getState\<close> and the other fields are the store's.
\<close>

theorem container_shares_fields:
  assumes cs: "createStore reducer args = Inr (base, s0)"
    and ok: "applyMiddleware n middlewares createStore reducer args (h, m) = Some (Inr (c, h', w))"
  shows "h' ! length h = store_object base \<and>
         h' ! c = (h' ! length h)\<lparr>dispatch := cell w\<rparr> \<and>
         getState (h' ! c) = getState (h' ! length h) \<and>
         others (h' ! c) = others (h' ! length h) \<and>
         (\<exists>chain. dispatch (h' ! c) =
                    Composed (getState base) chain (dispatch (h' ! length h)))"
proof -
  from cs ok obtain chain w1 where
    c: "c = Suc (length h)" and
    h': "h' = h @ [store_object base,
               \<lparr>getState = getState base,
                dispatch = Composed (getState base) chain (Native (dispatch base)),
                others = others base\<rparr>]" and
    w: "w = w1\<lparr>cell := Composed (getState base) chain (Native (dispatch base))\<rparr>"
    by (rule applyMiddleware_Inr)
  show ?thesis
    by (simp add: c h' w nth_append store_object_def)
qed

theorem container_shares_fields_witness:
  "\<exists>c h' w.
     int_store (+) 5 = Inr (int_base (+), 5) \<and>
     applyMiddleware 0 [pass_through] int_store (+) 5 ([], ()) = Some (Inr (c, h', w)) \<and>
     h' ! 0 = store_object (int_base (+)) \<and>
     h' ! c = (h' ! 0)\<lparr>dispatch := cell w\<rparr> \<and>
     getState (h' ! c) = getState (h' ! 0) \<and>
     others (h' ! c) = others (h' ! 0) \<and>
     (\<exists>chain. dispatch (h' ! c) =
                Composed (getState (int_base (+))) chain (dispatch (h' ! 0)))"
proof -
  have "\<exists>c h' w. applyMiddleware 0 [pass_through] int_store (+) 5 ([], ()) =
                   Some (Inr (c, h', w))"
    by (simp add: applyMiddleware_unfold [where createStore = int_store and reducer = "(+)"
          and args = 5, OF int_store_base] pass_through_def)
  then obtain c h' w where
    ok: "applyMiddleware 0 [pass_through] int_store (+) 5 ([], ()) = Some (Inr (c, h', w))"
    by blast
  from container_shares_fields [where createStore = int_store and reducer = "(+)" and args = 5,
      OF int_store_base ok, unfolded list.size]
    int_store_base [of "(+)" 5] ok
  show ?thesis by blast
qed

subsection \<open>A constructor that throws\<close>

text \<open>
  C8. If the constructors before a middleware returned their handlers and that
  middleware's constructor throws \<open>e\<close>, the enhanced constructor throws the same \<open>e\<close>
  and returns no container, whatever middlewares follow: the state left behind is the
  one the throwing constructor left, so no later constructor has run.
\<close>

theorem constructor_error_propagates:
  assumes cs: "createStore reducer args = Inr (base, s0)"
    and pre: "instantiate (middlewareAPI n (getState base)) pre
                \<lparr>store_st = s0, mw_st = m, cell = Guard\<rparr> = Some (Inr hs, w1)"
    and fail: "exec_ctor (middlewareAPI n (getState base)) middleware w1 = Some (Inl e, w2)"
  shows "applyMiddleware n (pre @ middleware # post) createStore reducer args (h, m) =
           Some (Inl (e, h @ [store_object base], mw_st w2))"
  using cs pre fail
  by (simp add: applyMiddleware_unfold [where createStore = createStore and reducer = reducer
        and args = args] instantiate_append)

theorem constructor_error_propagates_witness:
  "int_store (+) 5 = Inr (int_base (+), 5) \<and>
   instantiate (middlewareAPI 0 (getState (int_base (+)))) [announcing ''A'']
     \<lparr>store_st = 5, mw_st = [], cell = Guard\<rparr> =
     Some (Inr [forward], \<lparr>store_st = 5, mw_st = [''A''], cell = Guard\<rparr>) \<and>
   exec_ctor (middlewareAPI 0 (getState (int_base (+)))) (CThrow (Error ''boom''))
     \<lparr>store_st = 5, mw_st = [''A''], cell = Guard\<rparr> =
     Some (Inl (Error ''boom''), \<lparr>store_st = 5, mw_st = [''A''], cell = Guard\<rparr>) \<and>
   applyMiddleware 0 ([announcing ''A''] @ CThrow (Error ''boom'') # [announcing ''C''])
     int_store (+) 5 ([], []) =
     Some (Inl (Error ''boom'', [] @ [store_object (int_base (+))], [''A'']))"
proof -
  have pre: "instantiate (middlewareAPI 0 (getState (int_base (+)))) [announcing ''A'']
     \<lparr>store_st = 5, mw_st = [], cell = Guard\<rparr> =
     Some (Inr [forward], \<lparr>store_st = 5, mw_st = [''A''], cell = Guard\<rparr>)"
    by (simp add: announcing_run)
  have fail: "exec_ctor (middlewareAPI 0 (getState (int_base (+)))) (CThrow (Error ''boom''))
     \<lparr>store_st = 5, mw_st = [''A''], cell = Guard\<rparr> =
     Some (Inl (Error ''boom''), \<lparr>store_st = 5, mw_st = [''A''], cell = Guard\<rparr>)"
    by simp
  from constructor_error_propagates [where createStore = int_store and reducer = "(+)"
      and args = 5 and h = "[]" and post = "[announcing ''C'']", OF int_store_base pre fail]
  have "applyMiddleware 0 ([announcing ''A''] @ CThrow (Error ''boom'') # [announcing ''C''])
     int_store (+) 5 ([], []) =
     Some (Inl (Error ''boom'', [] @ [store_object (int_base (+))], [''A'']))"
    by simp
  with pre fail int_store_base [of "(+)" 5] show ?thesis by blast
qed

subsection \<open>The guard error and the rest of the construction\<close>

text \<open>
  C9, as amended. While the middlewares are being constructed, a call of
  \<^verbatim>\<open>api.dispatch\<close> throws the guard error and changes no state. Let the constructors
  before a middleware have returned their handlers, and let that middleware's constructor
  reach such a call outside every \<^verbatim>\<open>try\<close> block of its own. Then the constructor
  throws the guard error, with the store's state and the variable \<^verbatim>\<open>dispatch\<close> as they
  were, and the enhanced constructor throws it too: no container is returned and no later
  constructor runs, whatever middlewares follow. If the same body is the protected part
  of a \<^verbatim>\<open>try\<close> block, the enhanced constructor goes on from the state at the call with
  the \<^verbatim>\<open>catch\<close> clause in the constructor's place and then the later constructors,
  and returns the container of all their handlers when they return. A \<^verbatim>\<open>try\<close> block
  anywhere in a constructor behaves as its \<^verbatim>\<open>catch\<close> clause run from the state at
  the call.
\<close>

theorem guard_error_caught_or_unwinds:
  assumes cs: "createStore reducer args = Inr (base, s0)"
    and pre: "instantiate (middlewareAPI n (getState base)) pre
                \<lparr>store_st = s0, mw_st = m, cell = Guard\<rparr> = Some (Inr hs, w1)"
    and misuse: "uncaught_dispatch (middlewareAPI n (getState base)) body w1"
  shows "\<exists>w2.
           exec_ctor (middlewareAPI n (getState base)) body w1 = Some (Inl guard_error, w2) \<and>
           store_st w2 = s0 \<and> cell w2 = Guard \<and>
           (\<forall>a. api_dispatch (middlewareAPI n (getState base)) a w2 =
                  Some (Inl guard_error, w2)) \<and>
           applyMiddleware n (pre @ body # post) createStore reducer args (h, m) =
             Some (Inl (guard_error, h @ [store_object base], mw_st w2)) \<and>
           applyMiddleware n (pre @ CTry body hdl k # post) createStore reducer args (h, m) =
             (case instantiate (middlewareAPI n (getState base)) (hdl guard_error # post) w2 of
                None \<Rightarrow> None
              | Some (Inl e, w') \<Rightarrow> Some (Inl (e, h @ [store_object base], mw_st w'))
              | Some (Inr hs', w') \<Rightarrow>
                  Some (Inr (Suc (length h),
                             h @ [store_object base,
                                  \<lparr>getState = getState base,
                                   dispatch = Composed (getState base) (hs @ hs')
                                                (Native (dispatch base)),
                                   others = others base\<rparr>],
                             w'\<lparr>cell := Composed (getState base) (hs @ hs')
                                          (Native (dispatch base))\<rparr>))) \<and>
           (\<forall>w c hd kk.
              cell w = Guard \<longrightarrow> uncaught_dispatch (middlewareAPI n (getState base)) c w \<longrightarrow>
              (\<exists>w'. exec_ctor (middlewareAPI n (getState base)) c w =
                      Some (Inl guard_error, w') \<and>
                    exec_ctor (middlewareAPI n (getState base)) (CTry c hd kk) w =
                      exec_ctor (middlewareAPI n (getState base)) (hd guard_error) w'))"
proof -
  let ?api = "middlewareAPI n (getState base)"
  let ?w0 = "\<lparr>store_st = s0, mw_st = m, cell = Guard\<rparr>"
  have "cell ?w0 = Guard" by simp
  from instantiate_guard [OF this, of n "getState base" pre] pre
  have w1: "cell w1 = Guard" "store_st w1 = s0" by auto
  from uncaught_dispatch_throws [OF w1(1) misuse] obtain w2 where
    thrown: "exec_ctor ?api body w1 = Some (Inl guard_error, w2)"
    by blast
  from exec_ctor_guard [OF w1(1), of n "getState base" body] thrown w1(2)
  have w2: "cell w2 = Guard" "store_st w2 = s0" by auto
  have again: "\<forall>a. api_dispatch ?api a w2 = Some (Inl guard_error, w2)"
    using w2(1) by simp
  have unwinds: "applyMiddleware n (pre @ body # post) createStore reducer args (h, m) =
             Some (Inl (guard_error, h @ [store_object base], mw_st w2))"
    using cs pre thrown
    by (simp add: applyMiddleware_unfold [where createStore = createStore and reducer = reducer
          and args = args] instantiate_append)
  have step: "instantiate ?api (CTry body hdl k # post) w1 =
              instantiate ?api (hdl guard_error # post) w2"
    using thrown by simp
  have inst: "instantiate ?api (pre @ CTry body hdl k # post) ?w0 =
     (case instantiate ?api (hdl guard_error # post) w2 of
        None \<Rightarrow> None
      | Some (Inl e, w') \<Rightarrow> Some (Inl e, w')
      | Some (Inr hs', w') \<Rightarrow> Some (Inr (hs @ hs'), w'))"
    by (simp only: instantiate_append pre step option.case prod.case sum.case)
  have goes_on: "applyMiddleware n (pre @ CTry body hdl k # post) createStore reducer args (h, m) =
             (case instantiate ?api (hdl guard_error # post) w2 of
                None \<Rightarrow> None
              | Some (Inl e, w') \<Rightarrow> Some (Inl (e, h @ [store_object base], mw_st w'))
              | Some (Inr hs', w') \<Rightarrow>
                  Some (Inr (Suc (length h),
                             h @ [store_object base,
                                  \<lparr>getState = getState base,
                                   dispatch = Composed (getState base) (hs @ hs')
                                                (Native (dispatch base)),
                                   others = others base\<rparr>],
                             w'\<lparr>cell := Composed (getState base) (hs @ hs')
                                          (Native (dispatch base))\<rparr>)))"
    unfolding applyMiddleware_unfold [where createStore = createStore and reducer = reducer
          and args = args, OF cs] inst
    by (simp del: instantiate.simps split: option.splits sum.splits prod.splits)
  have inner: "\<exists>w'. exec_ctor ?api c w = Some (Inl guard_error, w') \<and>
                    exec_ctor ?api (CTry c hd kk) w = exec_ctor ?api (hd guard_error) w'"
    if "cell w = Guard" "uncaught_dispatch ?api c w" for w c hd kk
  proof -
    from uncaught_dispatch_throws [OF that] obtain w' where
      "exec_ctor ?api c w = Some (Inl guard_error, w')"
      by blast
    then show ?thesis by simp
  qed
  show ?thesis
  proof (intro exI [of _ w2] conjI allI impI)
    show "exec_ctor ?api body w1 = Some (Inl guard_error, w2)" by (rule thrown)
    show "store_st w2 = s0" "cell w2 = Guard" by (rule w2)+
    show "api_dispatch ?api a w2 = Some (Inl guard_error, w2)" for a
      using again by blast
    show "applyMiddleware n (pre @ body # post) createStore reducer args (h, m) =
             Some (Inl (guard_error, h @ [store_object base], mw_st w2))"
      by (rule unwinds)
    show "applyMiddleware n (pre @ CTry body hdl k # post) createStore reducer args (h, m) =
             (case instantiate ?api (hdl guard_error # post) w2 of
                None \<Rightarrow> None
              | Some (Inl e, w') \<Rightarrow> Some (Inl (e, h @ [store_object base], mw_st w'))
              | Some (Inr hs', w') \<Rightarrow>
                  Some (Inr (Suc (length h),
                             h @ [store_object base,
                                  \<lparr>getState = getState base,
                                   dispatch = Composed (getState base) (hs @ hs')
                                                (Native (dispatch base)),
                                   others = others base\<rparr>],
                             w'\<lparr>cell := Composed (getState base) (hs @ hs')
                                          (Native (dispatch base))\<rparr>)))"
      by (rule goes_on)
    show "\<exists>w'. exec_ctor ?api c w = Some (Inl guard_error, w') \<and>
                exec_ctor ?api (CTry c hd kk) w = exec_ctor ?api (hd guard_error) w'"
      if "cell w = Guard" "uncaught_dispatch ?api c w" for w c hd kk
      using that by (rule inner)
  qed
qed

theorem guard_error_caught_or_unwinds_witness:
  "int_store (+) 5 = Inr (int_base (+), 5) \<and>
   instantiate (middlewareAPI 0 (getState (int_base (+)))) [announcing ''A'']
     \<lparr>store_st = 5, mw_st = [], cell = Guard\<rparr> =
     Some (Inr [forward], fresh_world\<lparr>mw_st := [''A'']\<rparr>) \<and>
   uncaught_dispatch (middlewareAPI 0 (getState (int_base (+)))) tardy
     (fresh_world\<lparr>mw_st := [''A'']\<rparr>) \<and>
   exec_ctor (middlewareAPI 0 (getState (int_base (+)))) tardy
     (fresh_world\<lparr>mw_st := [''A'']\<rparr>) =
     Some (Inl guard_error, fresh_world\<lparr>mw_st := [''A'', ''B'']\<rparr>) \<and>
   applyMiddleware 0 ([announcing ''A''] @ tardy # [announcing ''C'']) int_store (+) 5 ([], []) =
     Some (Inl (guard_error, [] @ [store_object (int_base (+))], [''A'', ''B''])) \<and>
   applyMiddleware 0 ([announcing ''A''] @ CTry tardy swallow CReturn # [announcing ''C''])
     int_store (+) 5 ([], []) =
     Some (Inr (1,
       [store_object (int_base (+)),
        (store_object (int_base (+)))\<lparr>dispatch := wrapped [forward, forward, forward]\<rparr>],
       fresh_world\<lparr>mw_st := [''A'', ''B'', ''C''],
                   cell := wrapped [forward, forward, forward]\<rparr>)) \<and>
   cell fresh_world = Guard \<and>
   uncaught_dispatch (middlewareAPI 0 (getState (int_base (+)))) eager fresh_world \<and>
   exec_ctor (middlewareAPI 0 (getState (int_base (+)))) eager fresh_world =
     Some (Inl guard_error, fresh_world) \<and>
   exec_ctor (middlewareAPI 0 (getState (int_base (+)))) (CTry eager swallow CReturn)
     fresh_world =
   exec_ctor (middlewareAPI 0 (getState (int_base (+)))) (swallow guard_error) fresh_world"
proof -
  let ?api = "middlewareAPI 0 (getState (int_base (+))) ::
                (int, int, int, int, string list) middlewareAPI"
  have pre: "instantiate ?api [announcing ''A''] \<lparr>store_st = 5, mw_st = [], cell = Guard\<rparr> =
     Some (Inr [forward], fresh_world\<lparr>mw_st := [''A'']\<rparr>)"
    by (simp add: announcing_run fresh_world_def)
  have misuse: "uncaught_dispatch ?api tardy (fresh_world\<lparr>mw_st := [''A'']\<rparr>)"
    by (simp add: tardy_def eager_def)
  have thrown: "exec_ctor ?api tardy (fresh_world\<lparr>mw_st := [''A'']\<rparr>) =
     Some (Inl guard_error, fresh_world\<lparr>mw_st := [''A'', ''B'']\<rparr>)"
    by (simp add: tardy_def eager_def fresh_world_def)
  from guard_error_caught_or_unwinds [where createStore = int_store and reducer = "(+)"
      and args = 5 and h = "[]" and post = "[announcing ''C'']" and hdl = swallow
      and k = CReturn, OF int_store_base pre misuse]
  obtain w2 where
    t: "exec_ctor ?api tardy (fresh_world\<lparr>mw_st := [''A'']\<rparr>) = Some (Inl guard_error, w2)" and
    u: "applyMiddleware 0 ([announcing ''A''] @ tardy # [announcing ''C'']) int_store (+) 5
          ([], []) = Some (Inl (guard_error, [] @ [store_object (int_base (+))], mw_st w2))" and
    g: "applyMiddleware 0 ([announcing ''A''] @ CTry tardy swallow CReturn # [announcing ''C''])
          int_store (+) 5 ([], []) =
        (case instantiate ?api (swallow guard_error # [announcing ''C'']) w2 of
                None \<Rightarrow> None
              | Some (Inl e, w') \<Rightarrow>
                  Some (Inl (e, [] @ [store_object (int_base (+))], mw_st w'))
              | Some (Inr hs', w') \<Rightarrow>
                  Some (Inr (Suc (length ([] :: (int, int, int, int, string list, unit) heap)),
                             [] @ [store_object (int_base (+)),
                                  \<lparr>getState = getState (int_base (+)),
                                   dispatch = Composed (getState (int_base (+)))
                                                ([forward] @ hs')
                                                (Native (dispatch (int_base (+)))),
                                   others = others (int_base (+))\<rparr>],
                             w'\<lparr>cell := Composed (getState (int_base (+))) ([forward] @ hs')
                                          (Native (dispatch (int_base (+))))\<rparr>)))" and
    l: "\<forall>w c hd kk.
          cell w = Guard \<longrightarrow> uncaught_dispatch ?api c w \<longrightarrow>
          (\<exists>w'. exec_ctor ?api c w = Some (Inl guard_error, w') \<and>
                exec_ctor ?api (CTry c hd kk) w = exec_ctor ?api (hd guard_error) w')"
    by blast
  have unbound: "cell fresh_world = Guard"
    by (simp add: fresh_world_def)
  have reaches: "uncaught_dispatch ?api eager fresh_world"
    by (simp add: eager_def)
  have throws: "exec_ctor ?api eager fresh_world = Some (Inl guard_error, fresh_world)"
    by (rule eager_run [OF unbound])
  from l unbound reaches obtain w' where
    "exec_ctor ?api eager fresh_world = Some (Inl guard_error, w')"
    "exec_ctor ?api (CTry eager swallow CReturn) fresh_world =
       exec_ctor ?api (swallow guard_error) w'"
    by blast
  with throws have caught: "exec_ctor ?api (CTry eager swallow CReturn) fresh_world =
       exec_ctor ?api (swallow guard_error) fresh_world"
    by simp
  from t thrown have w2: "w2 = fresh_world\<lparr>mw_st := [''A'', ''B'']\<rparr>" by simp
  have u': "applyMiddleware 0 ([announcing ''A''] @ tardy # [announcing ''C'']) int_store (+) 5
          ([], []) = Some (Inl (guard_error, [] @ [store_object (int_base (+))], [''A'', ''B'']))"
    using u unfolding w2 by simp
  have g': "applyMiddleware 0 ([announcing ''A''] @ CTry tardy swallow CReturn # [announcing ''C''])
     int_store (+) 5 ([], []) =
     Some (Inr (1,
       [store_object (int_base (+)),
        (store_object (int_base (+)))\<lparr>dispatch := wrapped [forward, forward, forward]\<rparr>],
       fresh_world\<lparr>mw_st := [''A'', ''B'', ''C''],
                   cell := wrapped [forward, forward, forward]\<rparr>))"
    unfolding g w2
    by (simp add: swallow_def announcing_run wrapped_def store_object_def fresh_world_def)
  from int_store_base [of "(+)" 5] pre misuse thrown u' g' unbound reaches throws caught
  show ?thesis by blast
qed

text \<open>
  C9 as stated fails: the guard error thrown in the first constructor unwinds the
  construction; the second constructor, which would write to the log, never runs.
\<close>

theorem guard_error_unwinds_counterexample:
  "applyMiddleware 0 [eager, announcing ''second''] int_store (+) 5 ([], []) =
     Some (Inl (guard_error, [store_object (int_base (+))], []))"
  by (simp add: applyMiddleware_unfold [where createStore = int_store and reducer = "(+)"
        and args = 5, OF int_store_base] eager_run)

subsection \<open>The base store object\<close>

text \<open>
  C10. When the enhanced constructor returns a container, the heap is the old heap
  followed by the store object, unchanged since \<^verbatim>\<open>createStore\<close> returned it and still
  holding the base dispatch, and by the returned container, the only new object. The
  composed function applies the transforms of the chain from the last to the first,
  starting from the base dispatch, which is thus the \<^verbatim>\<open>next\<close> of the last handler.
\<close>

theorem base_store_not_mutated:
  assumes cs: "createStore reducer args = Inr (base, s0)"
    and ok: "applyMiddleware n middlewares createStore reducer args (h, m) = Some (Inr (c, h', w))"
  shows "butlast h' = h @ [store_object base] \<and>
         Suc c = length h' \<and>
         dispatch (h' ! length h) = Native (dispatch base) \<and>
         (\<exists>chain.
            dispatch (h' ! c) = Composed (getState base) chain (dispatch (h' ! length h)) \<and>
            (\<forall>k. call (Suc k) (dispatch (h' ! c)) =
                  foldr (\<lambda>t nxt. t nxt) (map (transform (middlewareAPI k (getState base))) chain)
                    (call k (Native (dispatch base)))))"
proof -
  from cs ok obtain chain w1 where
    c: "c = Suc (length h)" and
    h': "h' = h @ [store_object base,
               \<lparr>getState = getState base,
                dispatch = Composed (getState base) chain (Native (dispatch base)),
                others = others base\<rparr>]"
    by (rule applyMiddleware_Inr)
  have run: "call (Suc k) (Composed (getState base) chain (Native (dispatch base))) =
        foldr (\<lambda>t nxt. t nxt) (map (transform (middlewareAPI k (getState base))) chain)
          (call k (Native (dispatch base)))" for k
    by (simp only: call_Composed compose_foldr)
  have obj: "dispatch (h' ! c) = Composed (getState base) chain (Native (dispatch base))"
       "dispatch (h' ! length h) = Native (dispatch base)"
    by (simp_all add: c h' nth_append store_object_def)
  have "butlast h' = h @ [store_object base]" "Suc c = length h'"
    by (simp_all add: c h' butlast_append)
  with obj run show ?thesis by (auto simp del: call.simps)
qed

theorem base_store_not_mutated_witness:
  "\<exists>c h' w.
     int_store (+) 5 = Inr (int_base (+), 5) \<and>
     applyMiddleware 0 [announcing ''A''] int_store (+) 5 ([], []) = Some (Inr (c, h', w)) \<and>
     butlast h' = [] @ [store_object (int_base (+))] \<and>
     Suc c = length h' \<and>
     dispatch (h' ! 0) = Native (dispatch (int_base (+))) \<and>
     (\<exists>chain.
        dispatch (h' ! c) = Composed (getState (int_base (+))) chain (dispatch (h' ! 0)) \<and>
        (\<forall>k. call (Suc k) (dispatch (h' ! c)) =
              foldr (\<lambda>t nxt. t nxt)
                (map (transform (middlewareAPI k (getState (int_base (+))))) chain)
                (call k (Native (dispatch (int_base (+)))))))"
proof -
  have "\<exists>c h' w. applyMiddleware 0 [announcing ''A''] int_store (+) 5 ([], []) =
                   Some (Inr (c, h', w))"
    by (simp add: applyMiddleware_unfold [where createStore = int_store and reducer = "(+)"
          and args = 5, OF int_store_base] announcing_run)
  then obtain c h' w where
    ok: "applyMiddleware 0 [announcing ''A''] int_store (+) 5 ([], []) = Some (Inr (c, h', w))"
    by blast
  from base_store_not_mutated [where createStore = int_store and reducer = "(+)" and args = 5,
      OF int_store_base ok, unfolded list.size]
    int_store_base [of "(+)" 5] ok
  show ?thesis by blast
qed

end
